theory Spec2Isabelle
  imports Main "HOL-Library.Word"
begin

unbundle bit_operations_syntax

section \<open>Python values and exceptions\<close>

text \<open>
  The module \<^verbatim>\<open>gcloud_core/datastore/__init__.py\<close> is read as Python 3 source (it
  encodes a \<^verbatim>\<open>str\<close> to bytes and decodes bytes to a \<^verbatim>\<open>str\<close>). A \<^verbatim>\<open>str\<close> is a
  sequence of Unicode code points and a \<^verbatim>\<open>bytes\<close> object a sequence of numbers below
  256; both are lists of naturals. \<open>text_of\<close> writes a literal. The interpreter is CPython
  3.11 with its default settings, so the conversions between integers and decimal
  strings refuse more than 4300 digits.
\<close>

type_synonym pystr = "nat list"
type_synonym pybytes = "nat list"

definition text_of :: "string \<Rightarrow> pystr" where
  "text_of s = map of_char s"

text \<open>The components of a key's flat path are \<^verbatim>\<open>str\<close> or \<^verbatim>\<open>int\<close> objects.\<close>

datatype pyval = PStr pystr | PInt int

text \<open>
  Exceptions. \<open>InvalidKeyException\<close> and \<open>InvalidIdException\<close> (lines 157 to 162) and
  the \<open>ValueError\<close> the module raises itself carry their message. The built-in
  operations raise without a modelled message: \<open>BuiltinValueError\<close> is the plain
  \<^verbatim>\<open>ValueError\<close> of \<^verbatim>\<open>int()\<close> and of the base64 module's argument check,
  \<open>BinasciiError\<close> is \<^verbatim>\<open>binascii.Error\<close>. \<open>OtherError\<close> stands for an exception of
  the external datastore library whose class derives from none of \<^verbatim>\<open>ValueError\<close>,
  \<^verbatim>\<open>AttributeError\<close>, \<^verbatim>\<open>IndexError\<close>, \<^verbatim>\<open>TypeError\<close>.
\<close>

datatype error =
    InvalidKeyException pystr
  | InvalidIdException pystr
  | ValueError pystr
  | BuiltinValueError
  | BinasciiError
  | UnicodeEncodeError
  | UnicodeDecodeError
  | IndexError
  | TypeError
  | AttributeError
  | OtherError pystr

text \<open>
  \<^verbatim>\<open>except (ValueError, AttributeError, IndexError, TypeError)\<close> (line 146): the two
  module exceptions, \<^verbatim>\<open>binascii.Error\<close> and the two Unicode errors are subclasses of
  \<^verbatim>\<open>ValueError\<close>.
\<close>

fun caught :: "error \<Rightarrow> bool" where
  "caught (OtherError _) = False"
| "caught _ = True"

definition SEPARATOR :: nat where
  "SEPARATOR = 30"

definition INTPREFIX :: nat where
  "INTPREFIX = 31"

subsection \<open>\<^verbatim>\<open>str()\<close> and truth of a value\<close>

text \<open>
  \<open>dec_int\<close> is the decimal string of an integer. \<^verbatim>\<open>str()\<close> of an integer raises
  \<^verbatim>\<open>ValueError\<close> when that string has more than 4300 digits, the sign not counted.
\<close>

fun dec_digits :: "nat \<Rightarrow> pystr" where
  "dec_digits n = (if n < 10 then [48 + n] else dec_digits (n div 10) @ [48 + n mod 10])"

declare dec_digits.simps [simp del]

definition dec_int :: "int \<Rightarrow> pystr" where
  "dec_int i = (if i < 0 then 45 # dec_digits (nat (- i)) else dec_digits (nat i))"

definition int_max_str_digits :: nat where
  "int_max_str_digits = 4300"

definition str_int :: "int \<Rightarrow> error + pystr" where
  "str_int i =
     (if int_max_str_digits < length (dec_digits (nat \<bar>i\<bar>)) then Inl BuiltinValueError
      else Inr (dec_int i))"

fun py_str :: "pyval \<Rightarrow> error + pystr" where
  "py_str (PStr s) = Inr s"
| "py_str (PInt i) = str_int i"

fun truthy :: "pyval \<Rightarrow> bool" where
  "truthy (PStr s) = (s \<noteq> [])"
| "truthy (PInt i) = (i \<noteq> 0)"

subsection \<open>The error templates and the \<^verbatim>\<open>%\<close> operator\<close>

text \<open>
  A template is kept as the list of its literal chunks around each \<^verbatim>\<open>%s\<close>. The right
  operand of \<^verbatim>\<open>%\<close> is either a tuple, whose elements are the arguments, or any other
  object, which is the single argument (an object that is no \<open>pyval\<close> is passed as
  the string its \<^verbatim>\<open>str()\<close> gives). The placeholders are filled from left to right,
  each with the \<^verbatim>\<open>str()\<close> of the next argument; a missing argument, and an argument
  left over at the end, raise \<^verbatim>\<open>TypeError\<close>.
\<close>

datatype fmt_arg = Obj pyval | Tup "pyval list"

fun fill :: "pystr list \<Rightarrow> pyval list \<Rightarrow> error + pystr" where
  "fill [c] [] = Inr c"
| "fill [c] (a # as) = Inl TypeError"
| "fill (c # cs) [] = Inl TypeError"
| "fill (c # cs) (a # as) =
     (case py_str a of
        Inl e \<Rightarrow> Inl e
      | Inr s \<Rightarrow> (case fill cs as of Inl e \<Rightarrow> Inl e | Inr r \<Rightarrow> Inr (c @ s @ r)))"
| "fill [] as = Inl TypeError"

definition percent :: "pystr list \<Rightarrow> fmt_arg \<Rightarrow> error + pystr" where
  "percent chunks arg = fill chunks (case arg of Obj v \<Rightarrow> [v] | Tup vs \<Rightarrow> vs)"

definition id_type_err :: "pystr list" where
  "id_type_err = [text_of ''Resource Ids must be an instance of str. Received: '', []]"

definition kind_err :: "pystr list" where
  "kind_err = [text_of ''Expected keystr for kind '', text_of '' but found kind '',
               text_of '' instead.'']"

definition invalid_id_err :: "pystr list" where
  "invalid_id_err = [[39], 39 # text_of '' is not a valid resource id.'' @ [39]]"

definition pair_err :: "pystr list" where
  "pair_err = [text_of ''Key must have an even number of positional pairs. Received: '', []]"

section \<open>The codecs of the standard library\<close>

subsection \<open>\<^verbatim>\<open>str.encode('ascii')\<close> and \<^verbatim>\<open>bytes.decode()\<close>\<close>

definition encode_ascii :: "pystr \<Rightarrow> error + pybytes" where
  "encode_ascii s = (if list_all (\<lambda>c. c < 128) s then Inr s else Inl UnicodeEncodeError)"

text \<open>
  \<^verbatim>\<open>bytes.decode()\<close> is strict UTF-8: the well-formed byte sequences of the Unicode
  standard (no overlong forms, no surrogates, nothing above U+10FFFF: the second byte
  of a sequence is bounded by its lead byte); anything else raises
  \<^verbatim>\<open>UnicodeDecodeError\<close>.
\<close>

definition emit :: "nat \<Rightarrow> error + nat list \<Rightarrow> error + nat list" where
  "emit x r = (case r of Inl e \<Rightarrow> Inl e | Inr xs \<Rightarrow> Inr (x # xs))"

definition cont :: "nat \<Rightarrow> bool" where
  "cont b = (128 \<le> b \<and> b < 192)"

fun utf8_decode :: "pybytes \<Rightarrow> error + pystr" where
  "utf8_decode [] = Inr []"
| "utf8_decode (b0 # r0) =
     (if b0 < 128 then emit b0 (utf8_decode r0)
      else if 194 \<le> b0 \<and> b0 < 224 then
        (case r0 of
           b1 # r1 \<Rightarrow>
             if cont b1 then emit ((b0 - 192) * 64 + (b1 - 128)) (utf8_decode r1)
             else Inl UnicodeDecodeError
         | _ \<Rightarrow> Inl UnicodeDecodeError)
      else if 224 \<le> b0 \<and> b0 < 240 then
        (case r0 of
           b1 # b2 # r2 \<Rightarrow>
             if (if b0 = 224 then 160 else 128) \<le> b1 \<and> b1 < (if b0 = 237 then 160 else 192)
                \<and> cont b2
             then emit ((b0 - 224) * 4096 + (b1 - 128) * 64 + (b2 - 128)) (utf8_decode r2)
             else Inl UnicodeDecodeError
         | _ \<Rightarrow> Inl UnicodeDecodeError)
      else if 240 \<le> b0 \<and> b0 < 245 then
        (case r0 of
           b1 # b2 # b3 # r3 \<Rightarrow>
             if (if b0 = 240 then 144 else 128) \<le> b1 \<and> b1 < (if b0 = 244 then 144 else 192)
                \<and> cont b2 \<and> cont b3
             then emit ((b0 - 240) * 262144 + (b1 - 128) * 4096 + (b2 - 128) * 64 + (b3 - 128))
                    (utf8_decode r3)
             else Inl UnicodeDecodeError
         | _ \<Rightarrow> Inl UnicodeDecodeError)
      else Inl UnicodeDecodeError)"

subsection \<open>\<^verbatim>\<open>base64.urlsafe_b64encode\<close>\<close>

text \<open>
  The standard alphabet (RFC 4648): A to Z, a to z, 0 to 9, \<^verbatim>\<open>+\<close> and \<^verbatim>\<open>/\<close>; the pad
  is \<^verbatim>\<open>=\<close> (61). \<^verbatim>\<open>binascii.b2a_base64\<close> maps each group of three bytes to four
  characters and pads a last group of one or two bytes.
\<close>

definition BASE64_PAD :: nat where
  "BASE64_PAD = 61"

definition table_b2a_base64 :: "nat \<Rightarrow> nat" where
  "table_b2a_base64 v =
     (if v < 26 then 65 + v
      else if v < 52 then 97 + (v - 26)
      else if v < 62 then 48 + (v - 52)
      else if v = 62 then 43 else 47)"

fun b2a_base64 :: "pybytes \<Rightarrow> pybytes" where
  "b2a_base64 [] = []"
| "b2a_base64 [a] =
     [table_b2a_base64 (a div 4), table_b2a_base64 ((a mod 4) * 16), BASE64_PAD, BASE64_PAD]"
| "b2a_base64 [a, b] =
     [table_b2a_base64 (a div 4), table_b2a_base64 ((a mod 4) * 16 + b div 16),
      table_b2a_base64 ((b mod 16) * 4), BASE64_PAD]"
| "b2a_base64 (a # b # c # rest) =
     [table_b2a_base64 (a div 4), table_b2a_base64 ((a mod 4) * 16 + b div 16),
      table_b2a_base64 ((b mod 16) * 4 + c div 64), table_b2a_base64 (c mod 64)]
     @ b2a_base64 rest"

text \<open>\<^verbatim>\<open>urlsafe_b64encode\<close> replaces \<^verbatim>\<open>+\<close> by \<^verbatim>\<open>-\<close> and \<^verbatim>\<open>/\<close> by \<^verbatim>\<open>_\<close>.\<close>

definition urlsafe_encode_translation :: "nat \<Rightarrow> nat" where
  "urlsafe_encode_translation c = (if c = 43 then 45 else if c = 47 then 95 else c)"

definition urlsafe_b64encode :: "pybytes \<Rightarrow> pybytes" where
  "urlsafe_b64encode s = map urlsafe_encode_translation (b2a_base64 s)"

section \<open>Encode: \<^verbatim>\<open>get_resource_id_from_key\<close>\<close>

text \<open>
  A key of the datastore library is an opaque object; the module reads its
  \<^verbatim>\<open>flat_path\<close> and \<^verbatim>\<open>kind\<close> attributes and formats it with \<^verbatim>\<open>%s\<close> (\<open>key_str\<close> is
  its \<^verbatim>\<open>str()\<close>).
\<close>

record key =
  flat_path :: "pyval list"
  kind :: pystr
  key_str :: pystr

text \<open>\<^verbatim>\<open>a = iter(key.flat_path); pairs = zip(a, a)\<close> (lines 44 and 45).\<close>

fun pairs_of :: "'a list \<Rightarrow> ('a \<times> 'a) list" where
  "pairs_of (x # y # rest) = (x, y) # pairs_of rest"
| "pairs_of _ = []"

text \<open>\<^verbatim>\<open>SEPARATOR.join(pair_strings)\<close>.\<close>

fun join :: "pystr \<Rightarrow> pystr list \<Rightarrow> pystr" where
  "join sep [] = []"
| "join sep [x] = x"
| "join sep (x # y # ys) = x @ sep @ join sep (y # ys)"

text \<open>
  The loop of lines 47 to 57, with \<open>pair_strings\<close> as accumulator. Line 52 formats
  the pair, a tuple of two, into the template with one placeholder before it
  constructs the exception.
\<close>

fun pair_loop :: "(pyval \<times> pyval) list \<Rightarrow> pystr list \<Rightarrow> error + pystr list" where
  "pair_loop [] pair_strings = Inr pair_strings"
| "pair_loop ((p0, p1) # rest) pair_strings =
     (case py_str p0 of
        Inl e \<Rightarrow> Inl e
      | Inr knd \<Rightarrow>
          let key_or_id = p1 in
          if \<not> (knd \<noteq> [] \<and> truthy key_or_id) then
            (case percent pair_err (Tup [p0, p1]) of
               Inl e \<Rightarrow> Inl e
             | Inr m \<Rightarrow> Inl (InvalidKeyException m))
          else
            case (case key_or_id of
                    PInt i \<Rightarrow> (case str_int i of Inl e \<Rightarrow> Inl e | Inr s \<Rightarrow> Inr (INTPREFIX # s))
                  | PStr s \<Rightarrow> Inr s) of
              Inl e \<Rightarrow> Inl e
            | Inr key_or_id_str \<Rightarrow>
                pair_loop rest (pair_strings @ [knd @ [SEPARATOR] @ key_or_id_str]))"

definition get_resource_id_from_key :: "key \<Rightarrow> error + pystr" where
  "get_resource_id_from_key k =
     (let path = flat_path k in
      if length path AND 1 \<noteq> 0 then
        (case percent pair_err (Obj (PStr (key_str k))) of
           Inl e \<Rightarrow> Inl e
         | Inr m \<Rightarrow> Inl (InvalidKeyException m))
      else
        case pair_loop (pairs_of (flat_path k)) [] of
          Inl e \<Rightarrow> Inl e
        | Inr pair_strings \<Rightarrow>
            (case encode_ascii (join [SEPARATOR] pair_strings) of
               Inl e \<Rightarrow> Inl e
             | Inr buff \<Rightarrow>
                 let encoded = urlsafe_b64encode buff;
                     encoded = filter (\<lambda>c. c \<noteq> 61) encoded
                 in utf8_decode encoded))"

section \<open>Decode: \<^verbatim>\<open>get_key_from_resource_id\<close>\<close>

subsection \<open>\<^verbatim>\<open>base64.urlsafe_b64decode\<close>\<close>

text \<open>
  A \<^verbatim>\<open>str\<close> argument is first encoded to ASCII bytes; a character outside ASCII raises
  a plain \<^verbatim>\<open>ValueError\<close>. Then \<^verbatim>\<open>-\<close> and \<^verbatim>\<open>_\<close> are translated back to \<^verbatim>\<open>+\<close> and
  \<^verbatim>\<open>/\<close>, and \<^verbatim>\<open>binascii.a2b_base64\<close> decodes in its default, non-strict mode.
\<close>

definition bytes_from_decode_data :: "pystr \<Rightarrow> error + pybytes" where
  "bytes_from_decode_data s =
     (case encode_ascii s of Inl e \<Rightarrow> Inl BuiltinValueError | Inr b \<Rightarrow> Inr b)"

definition urlsafe_decode_translation :: "nat \<Rightarrow> nat" where
  "urlsafe_decode_translation c = (if c = 45 then 43 else if c = 95 then 47 else c)"

definition table_a2b_base64 :: "nat \<Rightarrow> nat option" where
  "table_a2b_base64 c =
     (if 65 \<le> c \<and> c \<le> 90 then Some (c - 65)
      else if 97 \<le> c \<and> c \<le> 122 then Some (c - 71)
      else if 48 \<le> c \<and> c \<le> 57 then Some (c + 4)
      else if c = 43 then Some 62
      else if c = 47 then Some 63
      else None)"

text \<open>
  The non-strict decoder walks the input with the position \<open>quad_pos\<close> in the current
  group of four, the bits \<open>leftchar\<close> left over from the previous character and the
  number \<open>pads\<close> of pad characters seen since the last data character. A character
  outside the alphabet is skipped. A pad ends the input once it completes a group
  that holds at least two data characters, and is skipped otherwise. Input that ends
  inside a group raises \<^verbatim>\<open>binascii.Error\<close>.
\<close>

fun a2b_loop :: "nat \<Rightarrow> nat \<Rightarrow> nat \<Rightarrow> pybytes \<Rightarrow> error + pybytes" where
  "a2b_loop quad_pos leftchar pads [] =
     (if quad_pos \<noteq> 0 then Inl BinasciiError else Inr [])"
| "a2b_loop quad_pos leftchar pads (this_ch # rest) =
     (if this_ch = BASE64_PAD then
        (if 2 \<le> quad_pos \<and> 4 \<le> quad_pos + (pads + 1) then Inr []
         else a2b_loop quad_pos leftchar (if 2 \<le> quad_pos then pads + 1 else pads) rest)
      else
        case table_a2b_base64 this_ch of
          None \<Rightarrow> a2b_loop quad_pos leftchar pads rest
        | Some v \<Rightarrow>
            (if quad_pos = 0 then a2b_loop 1 v 0 rest
             else if quad_pos = 1 then
               emit (leftchar * 4 + v div 16) (a2b_loop 2 (v mod 16) 0 rest)
             else if quad_pos = 2 then
               emit (leftchar * 16 + v div 4) (a2b_loop 3 (v mod 4) 0 rest)
             else emit (leftchar * 64 + v) (a2b_loop 0 0 0 rest)))"

definition a2b_base64 :: "pybytes \<Rightarrow> error + pybytes" where
  "a2b_base64 s = a2b_loop 0 0 0 s"

definition urlsafe_b64decode :: "pystr \<Rightarrow> error + pybytes" where
  "urlsafe_b64decode s =
     (case bytes_from_decode_data s of
        Inl e \<Rightarrow> Inl e
      | Inr b \<Rightarrow> a2b_base64 (map urlsafe_decode_translation b))"

subsection \<open>\<^verbatim>\<open>int()\<close> of a string\<close>

text \<open>
  \<^verbatim>\<open>int(s)\<close> accepts a decimal literal: optional white space, an optional sign, digits
  with single underscores between them, optional white space. In a string that is not
  pure ASCII, every character from 127 on is first replaced: Unicode white space by a
  blank, a Unicode decimal digit by its ASCII digit, and at anything else the string is
  cut with a question mark. The two look-ups in the Unicode character database are
  parameters. Anything that is not a literal raises \<^verbatim>\<open>ValueError\<close>, and so does a
  literal of more than 4300 digits (underscores, sign and white space not counted).
\<close>

record unicode_db =
  uni_isspace :: "nat \<Rightarrow> bool"
  uni_todecimal :: "nat \<Rightarrow> nat option"

fun transform_decimal_and_space :: "unicode_db \<Rightarrow> pystr \<Rightarrow> pystr" where
  "transform_decimal_and_space db [] = []"
| "transform_decimal_and_space db (ch # rest) =
     (if ch < 127 then ch # transform_decimal_and_space db rest
      else if uni_isspace db ch then 32 # transform_decimal_and_space db rest
      else case uni_todecimal db ch of
             None \<Rightarrow> [63]
           | Some d \<Rightarrow> (48 + d) # transform_decimal_and_space db rest)"

definition py_isspace :: "nat \<Rightarrow> bool" where
  "py_isspace c = (c = 32 \<or> (9 \<le> c \<and> c \<le> 13))"

definition is_digit :: "nat \<Rightarrow> bool" where
  "is_digit c = (48 \<le> c \<and> c \<le> 57)"

fun scan_digits :: "pystr \<Rightarrow> nat \<Rightarrow> nat \<Rightarrow> bool \<Rightarrow> (nat \<times> nat \<times> pystr) option" where
  "scan_digits [] acc digits prev_underscore =
     (if prev_underscore then None else Some (acc, digits, []))"
| "scan_digits (c # cs) acc digits prev_underscore =
     (if is_digit c then scan_digits cs (acc * 10 + (c - 48)) (digits + 1) False
      else if c = 95 then (if prev_underscore then None else scan_digits cs acc digits True)
      else if prev_underscore then None
      else Some (acc, digits, c # cs))"

definition long_from_string :: "pystr \<Rightarrow> error + int" where
  "long_from_string s =
     (let s1 = dropWhile py_isspace s;
          sign = (case s1 of c # r \<Rightarrow> (if c = 45 then (- 1) else 1) | [] \<Rightarrow> (1 :: int));
          s2 = (case s1 of c # r \<Rightarrow> (if c = 43 \<or> c = 45 then r else s1) | [] \<Rightarrow> s1)
      in case s2 of
           [] \<Rightarrow> Inl BuiltinValueError
         | c # r \<Rightarrow>
             if \<not> is_digit c then Inl BuiltinValueError
             else case scan_digits s2 0 0 False of
                    None \<Rightarrow> Inl BuiltinValueError
                  | Some (v, digits, rest) \<Rightarrow>
                      if int_max_str_digits < digits then Inl BuiltinValueError
                      else if dropWhile py_isspace rest = [] then Inr (sign * int v)
                      else Inl BuiltinValueError)"

definition py_int :: "unicode_db \<Rightarrow> pystr \<Rightarrow> error + int" where
  "py_int db s =
     long_from_string
       (if list_all (\<lambda>c. c < 128) s then s else transform_decimal_and_space db s)"

subsection \<open>The steps of lines 72 to 89\<close>

definition restore_padding :: "pystr \<Rightarrow> pystr" where
  "restore_padding resource_id =
     (let modulo = length resource_id mod 4
      in if modulo \<noteq> 0 then resource_id @ replicate (4 - modulo) 61 else resource_id)"

text \<open>
  Lines 78 to 81: only \<^verbatim>\<open>binascii.Error\<close> is handled; the \<^verbatim>\<open>ValueError\<close> of a
  non-ASCII argument and the \<^verbatim>\<open>UnicodeDecodeError\<close> of \<^verbatim>\<open>.decode()\<close> pass through.
\<close>

definition base64_step :: "pystr \<Rightarrow> error + pystr" where
  "base64_step resource_id =
     (case urlsafe_b64decode resource_id of
        Inl e \<Rightarrow>
          if e = BinasciiError
          then Inl (InvalidIdException (text_of ''Could not base64 decode resource_id''))
          else Inl e
      | Inr b \<Rightarrow> utf8_decode b)"

text \<open>\<^verbatim>\<open>decoded.split(SEPARATOR)\<close>: a separator of one character.\<close>

fun split :: "nat \<Rightarrow> pystr \<Rightarrow> pystr list" where
  "split sep [] = [[]]"
| "split sep (c # cs) =
     (if c = sep then [] # split sep cs
      else case split sep cs of
             t # ts \<Rightarrow> (c # t) # ts
           | [] \<Rightarrow> [[c]])"

text \<open>
  The loop of lines 86 to 89, with \<open>key_pairs\<close> as accumulator (\<open>tok\<close> is the loop variable \<^verbatim>\<open>bit\<close>):
  \<^verbatim>\<open>bit[0]\<close> of an empty token raises \<^verbatim>\<open>IndexError\<close>, \<^verbatim>\<open>int(bit[1:])\<close> may raise \<^verbatim>\<open>ValueError\<close>.
\<close>

fun bits_loop :: "unicode_db \<Rightarrow> pystr list \<Rightarrow> pyval list \<Rightarrow> error + pyval list" where
  "bits_loop db [] key_pairs = Inr key_pairs"
| "bits_loop db (tok # rest) key_pairs =
     (case tok of
        [] \<Rightarrow> Inl IndexError
      | c # tail \<Rightarrow>
          if c = INTPREFIX then
            (case py_int db tail of
               Inl e \<Rightarrow> Inl e
             | Inr i \<Rightarrow> bits_loop db rest (key_pairs @ [PInt i]))
          else bits_loop db rest (key_pairs @ [PStr tok]))"

text \<open>Lines 72 to 89: the positional arguments handed to \<^verbatim>\<open>Client().key\<close>.\<close>

definition key_tokens :: "unicode_db \<Rightarrow> pystr \<Rightarrow> error + pyval list" where
  "key_tokens db resource_id =
     (case base64_step (restore_padding resource_id) of
        Inl e \<Rightarrow> Inl e
      | Inr decoded \<Rightarrow> bits_loop db (split SEPARATOR decoded) [])"

section \<open>The client singleton and the resolve path\<close>

text \<open>
  The datastore library is outside the repository: its client constructor, key
  construction and look-up are parameters. The constructor may depend on how often it
  was called before. The class attribute \<^verbatim>\<open>Client.ds_client\<close> is the state \<open>ds_client\<close>
  (a client object is true in a condition); \<open>calls\<close> counts the calls of the library's
  constructor and \<open>made\<close> lists the clients it returned.
\<close>

record ('c, 'e) datastore =
  new_client :: "nat \<Rightarrow> error + 'c"
  client_key :: "'c \<Rightarrow> pyval list \<Rightarrow> error + key"
  client_get :: "'c \<Rightarrow> key \<Rightarrow> error + 'e option"

record 'c process =
  ds_client :: "'c option"
  calls :: nat
  made :: "'c list"

definition initial :: "'c process" where
  "initial = \<lparr>ds_client = None, calls = 0, made = []\<rparr>"

text \<open>\<^verbatim>\<open>Client()\<close> (lines 22 to 24), returning the handle that attribute access reaches.\<close>

definition Client :: "('c, 'e) datastore \<Rightarrow> 'c process \<Rightarrow> (error + 'c) \<times> 'c process" where
  "Client ds p =
     (case ds_client p of
        Some c \<Rightarrow> (Inr c, p)
      | None \<Rightarrow>
          (case new_client ds (calls p) of
             Inl e \<Rightarrow> (Inl e, p\<lparr>calls := calls p + 1\<rparr>)
           | Inr c \<Rightarrow> (Inr c, p\<lparr>ds_client := Some c, calls := calls p + 1, made := made p @ [c]\<rparr>)))"

definition get_key_from_resource_id ::
  "('c, 'e) datastore \<Rightarrow> unicode_db \<Rightarrow> 'c process \<Rightarrow> pystr \<Rightarrow> (error + key) \<times> 'c process" where
  "get_key_from_resource_id ds db p resource_id =
     (case key_tokens db resource_id of
        Inl e \<Rightarrow> (Inl e, p)
      | Inr key_pairs \<Rightarrow>
          (case Client ds p of
             (Inl e, p') \<Rightarrow> (Inl e, p')
           | (Inr c, p') \<Rightarrow> (client_key ds c key_pairs, p')))"

text \<open>The body of the \<^verbatim>\<open>try\<close> block, lines 138 to 145.\<close>

definition resolve_body ::
  "('c, 'e) datastore \<Rightarrow> unicode_db \<Rightarrow> 'c process \<Rightarrow> pyval \<Rightarrow> pystr
     \<Rightarrow> (error + 'e option) \<times> 'c process" where
  "resolve_body ds db p expected_kind resource_id =
     (case get_key_from_resource_id ds db p resource_id of
        (Inl e, p') \<Rightarrow> (Inl e, p')
      | (Inr k, p') \<Rightarrow>
          if PStr (kind k) \<noteq> expected_kind then
            (case percent kind_err (Tup [expected_kind, PStr (kind k)]) of
               Inl e \<Rightarrow> (Inl e, p')
             | Inr m \<Rightarrow> (Inl (ValueError m), p'))
          else
            (case Client ds p' of
               (Inl e, p'') \<Rightarrow> (Inl e, p'')
             | (Inr c, p'') \<Rightarrow> (client_get ds c k, p'')))"

definition get_entity_by_resource_id ::
  "('c, 'e) datastore \<Rightarrow> unicode_db \<Rightarrow> 'c process \<Rightarrow> pyval \<Rightarrow> pyval
     \<Rightarrow> (error + 'e option) \<times> 'c process" where
  "get_entity_by_resource_id ds db p expected_kind resource_id =
     (case resource_id of
        PInt i \<Rightarrow>
          (case percent id_type_err (Obj resource_id) of
             Inl e \<Rightarrow> (Inl e, p)
           | Inr m \<Rightarrow> (Inl (ValueError m), p))
      | PStr rid \<Rightarrow>
          if \<not> truthy resource_id then
            (case percent id_type_err (Obj resource_id) of
               Inl e \<Rightarrow> (Inl e, p)
             | Inr m \<Rightarrow> (Inl (ValueError m), p))
          else
            (case resolve_body ds db p expected_kind rid of
               (Inr r, p') \<Rightarrow> (Inr r, p')
             | (Inl e, p') \<Rightarrow>
                 if caught e then
                   (case percent invalid_id_err (Obj (PStr rid)) of
                      Inl e' \<Rightarrow> (Inl e', p')
                    | Inr m \<Rightarrow> (Inl (InvalidIdException m), p'))
                 else (Inl e, p')))"

section \<open>Notions used in the statements\<close>

text \<open>
  A string that Encode and Decode carry unchanged: not empty, ASCII only, free of the
  separator and of the integer marker.
\<close>

definition clean :: "pystr \<Rightarrow> bool" where
  "clean s = (s \<noteq> [] \<and> list_all (\<lambda>c. c < 128 \<and> c \<noteq> 30 \<and> c \<noteq> 31) s)"

text \<open>An integer whose decimal string has at most 4300 digits.\<close>

definition within_limit :: "int \<Rightarrow> bool" where
  "within_limit i = (length (dec_digits (nat \<bar>i\<bar>)) \<le> int_max_str_digits)"

text \<open>
  A well-formed flat path: a non-empty sequence of pairs, each a clean kind string
  followed by a clean string or by an integer other than 0 within the limit.
\<close>

fun wf_pairs :: "pyval list \<Rightarrow> bool" where
  "wf_pairs [] = True"
| "wf_pairs (PStr k # PStr s # rest) = (clean k \<and> clean s \<and> wf_pairs rest)"
| "wf_pairs (PStr k # PInt i # rest) =
     (clean k \<and> i \<noteq> 0 \<and> within_limit i \<and> wf_pairs rest)"
| "wf_pairs _ = False"

definition well_formed :: "pyval list \<Rightarrow> bool" where
  "well_formed path = (path \<noteq> [] \<and> wf_pairs path)"




text \<open>
  What the loop of lines 86 to 89 does with one token, whatever its position, and the
  first failure of a sequence of results.
\<close>

definition token_value :: "unicode_db \<Rightarrow> pystr \<Rightarrow> error + pyval" where
  "token_value db tok =
     (case tok of
        [] \<Rightarrow> Inl IndexError
      | c # tail \<Rightarrow>
          if c = INTPREFIX then
            (case py_int db tail of Inl e \<Rightarrow> Inl e | Inr i \<Rightarrow> Inr (PInt i))
          else Inr (PStr tok))"

fun collect :: "(error + 'a) list \<Rightarrow> error + 'a list" where
  "collect [] = Inr []"
| "collect (Inl e # rs) = Inl e"
| "collect (Inr v # rs) = (case collect rs of Inl e \<Rightarrow> Inl e | Inr vs \<Rightarrow> Inr (v # vs))"

text \<open>The six-bit values of the encoder's output characters, without the padding.\<close>

fun sextets :: "pybytes \<Rightarrow> nat list" where
  "sextets [] = []"
| "sextets [a] = [a div 4, (a mod 4) * 16]"
| "sextets [a, b] = [a div 4, (a mod 4) * 16 + b div 16, (b mod 16) * 4]"
| "sextets (a # b # c # rest) =
     [a div 4, (a mod 4) * 16 + b div 16, (b mod 16) * 4 + c div 64, c mod 64] @ sextets rest"

definition enc_char :: "nat \<Rightarrow> nat" where
  "enc_char v = urlsafe_encode_translation (table_b2a_base64 v)"

text \<open>The token a component of a well-formed path is written as.\<close>

fun token_of :: "pyval \<Rightarrow> pystr" where
  "token_of (PStr s) = s"
| "token_of (PInt i) = INTPREFIX # dec_int i"

text \<open>
  The value of a digit string, the string of a pair as line 57 builds it, and the
  components that Decode gives back as they are.
\<close>

definition digits_value :: "nat \<Rightarrow> pystr \<Rightarrow> nat" where
  "digits_value acc ds = foldl (\<lambda>a d. a * 10 + (d - 48)) acc ds"

definition pair_string :: "pyval \<times> pyval \<Rightarrow> pystr" where
  "pair_string pr = token_of (fst pr) @ [SEPARATOR] @ token_of (snd pr)"

definition plain :: "pyval \<Rightarrow> bool" where
  "plain v = (case v of PStr s \<Rightarrow> clean s | PInt i \<Rightarrow> within_limit i)"

text \<open>The message of the exception of line 81.\<close>

definition decode_msg :: pystr where
  "decode_msg = text_of ''Could not base64 decode resource_id''"

text \<open>
  The message of the exception of line 147, and the state of a process that has made
  at most the one client it caches.
\<close>

definition invalid_id_msg :: "pystr \<Rightarrow> pystr" where
  "invalid_id_msg rid = 39 # rid @ 39 # text_of '' is not a valid resource id.'' @ [39]"

definition one_client :: "'c process \<Rightarrow> bool" where
  "one_client p = (case ds_client p of None \<Rightarrow> made p = [] | Some c \<Rightarrow> made p = [c])"

text \<open>
  Sequences of calls into the module, run from the state of a fresh process.
\<close>

datatype call =
    Construct
  | GetKey pystr
  | GetEntity pyval pyval

fun run :: "('c, 'e) datastore \<Rightarrow> unicode_db \<Rightarrow> call list \<Rightarrow> 'c process \<Rightarrow> 'c process" where
  "run ds db [] p = p"
| "run ds db (Construct # cs) p = run ds db cs (snd (Client ds p))"
| "run ds db (GetKey rid # cs) p = run ds db cs (snd (get_key_from_resource_id ds db p rid))"
| "run ds db (GetEntity ek rid # cs) p =
     run ds db cs (snd (get_entity_by_resource_id ds db p ek rid))"

subsection \<open>Stand-ins for the environment, for instances of the theorems\<close>

text \<open>
  A character database without entries (ASCII text never consults it). A datastore
  whose clients are numbered, whose look-up finds nothing and whose key constructor
  does what the library's does with positional arguments: it refuses an empty path
  and a kind that is no string, and builds a key whose kind is that of the last pair,
  or the last argument itself when their number is odd (a partial key). One whose
  client constructor fails with an exception of the library's own, and one whose
  look-up does.
\<close>

definition ascii_db :: unicode_db where
  "ascii_db = \<lparr>uni_isspace = (\<lambda>c. False), uni_todecimal = (\<lambda>c. None)\<rparr>"

fun kinds_are_strings :: "pyval list \<Rightarrow> bool" where
  "kinds_are_strings [] = True"
| "kinds_are_strings [PStr k] = True"
| "kinds_are_strings (PStr k # i # rest) = kinds_are_strings rest"
| "kinds_are_strings _ = False"

fun leaf_kind :: "pyval list \<Rightarrow> pystr" where
  "leaf_kind [PStr k] = k"
| "leaf_kind [PStr k, i] = k"
| "leaf_kind (k # i # rest) = leaf_kind rest"
| "leaf_kind _ = []"

definition stub_key :: "pyval list \<Rightarrow> error + key" where
  "stub_key toks =
     (if toks = [] then Inl (ValueError (text_of ''Key path must not be empty.''))
      else if \<not> kinds_are_strings toks then Inl (ValueError (text_of ''Kind was not a string.''))
      else Inr \<lparr>flat_path = toks, kind = leaf_kind toks, key_str = []\<rparr>)"

definition stub_ds :: "(nat, pystr) datastore" where
  "stub_ds =
     \<lparr>new_client = (\<lambda>n. Inr n),
      client_key = (\<lambda>c toks. stub_key toks),
      client_get = (\<lambda>c k. Inr None)\<rparr>"

definition offline_ds :: "(nat, pystr) datastore" where
  "offline_ds = stub_ds\<lparr>new_client := (\<lambda>n. Inl (OtherError (text_of ''DefaultCredentialsError'')))\<rparr>"

definition unavailable_ds :: "(nat, pystr) datastore" where
  "unavailable_ds = stub_ds\<lparr>client_get := (\<lambda>c k. Inl (OtherError (text_of ''ServiceUnavailable'')))\<rparr>"

section \<open>Evaluation rules\<close>

lemma replicate_2 [simp]: "replicate 2 x = [x, x]"
  by (simp add: numeral_2_eq_2)

lemma replicate_3 [simp]: "replicate 3 x = [x, x, x]"
  by (simp add: numeral_3_eq_3)

lemma emit_Inr [simp]: "emit x (Inr xs) = Inr (x # xs)"
  by (simp add: emit_def)

lemma emit_Inl [simp]: "emit x (Inl e) = Inl e"
  by (simp add: emit_def)

lemmas codec_defs =
  text_of_def Let_def encode_ascii_def urlsafe_b64encode_def urlsafe_encode_translation_def
  table_b2a_base64_def BASE64_PAD_def SEPARATOR_def INTPREFIX_def str_int_def dec_int_def
  int_max_str_digits_def dec_digits.simps
  key_tokens_def restore_padding_def base64_step_def urlsafe_b64decode_def
  bytes_from_decode_data_def urlsafe_decode_translation_def table_a2b_base64_def a2b_base64_def
  py_int_def long_from_string_def is_digit_def py_isspace_def

section \<open>Base64: decoding what was encoded\<close>

lemma quotient_of_byte:
  fixes a b c :: nat
  assumes "b < 256"
  shows "a div 4 * 4 + (a mod 4 * 16 + b div 16) div 16 = a"
proof -
  have "b div 16 < 16" using assms by simp
  then have "(a mod 4 * 16 + b div 16) div 16 = a mod 4" by simp
  then show ?thesis by simp
qed

lemma middle_of_byte:
  fixes a b c :: nat
  assumes "b < 256" "c < 256"
  shows "(a mod 4 * 16 + b div 16) mod 16 * 16 + (b mod 16 * 4 + c div 64) div 4 = b"
proof -
  have "b div 16 < 16" using assms by simp
  then have 1: "(a mod 4 * 16 + b div 16) mod 16 = b div 16" by simp
  have "c div 64 < 4" using assms by simp
  then have 2: "(b mod 16 * 4 + c div 64) div 4 = b mod 16" by simp
  show ?thesis unfolding 1 2 by simp
qed

lemma rest_of_byte:
  fixes b c :: nat
  assumes "c < 256"
  shows "(b mod 16 * 4 + c div 64) mod 4 * 64 + c mod 64 = c"
proof -
  have "c div 64 < 4" using assms by simp
  then have 1: "(b mod 16 * 4 + c div 64) mod 4 = c div 64" by simp
  show ?thesis unfolding 1 by simp
qed

lemma sextet_bounds:
  fixes a b c :: nat
  assumes "a < 256" "b < 256" "c < 256"
  shows "a div 4 < 64" and "a mod 4 * 16 + b div 16 < 64" and "b mod 16 * 4 + c div 64 < 64"
    and "c mod 64 < 64" and "a mod 4 * 16 < 64" and "b mod 16 * 4 < 64"
proof -
  have "a mod 4 < 4" "b div 16 < 16" "b mod 16 < 16" "c div 64 < 4" using assms by simp_all
  then show "a mod 4 * 16 + b div 16 < 64" "b mod 16 * 4 + c div 64 < 64"
    "a mod 4 * 16 < 64" "b mod 16 * 4 < 64" by linarith+
  show "a div 4 < 64" using assms by simp
  show "c mod 64 < 64" by simp
qed

lemma enc_char_not_pad: "enc_char v \<noteq> 61"
  unfolding enc_char_def urlsafe_encode_translation_def table_b2a_base64_def by auto

lemma enc_char_ascii: "enc_char v < 128"
  unfolding enc_char_def urlsafe_encode_translation_def table_b2a_base64_def by auto

lemma dec_enc_char:
  assumes "v < 64"
  shows "table_a2b_base64 (urlsafe_decode_translation (enc_char v)) = Some v"
proof -
  consider "v < 26" | "26 \<le> v" "v < 52" | "52 \<le> v" "v < 62" | "v = 62" | "v = 63"
    using assms by linarith
  then show ?thesis
    by cases (auto simp add: enc_char_def urlsafe_encode_translation_def table_b2a_base64_def
        urlsafe_decode_translation_def table_a2b_base64_def)
qed

lemma dec_enc_char_not_pad: "urlsafe_decode_translation (enc_char v) \<noteq> 61"
  unfolding enc_char_def urlsafe_encode_translation_def table_b2a_base64_def
      urlsafe_decode_translation_def by auto

lemma strip_padding: "filter (\<lambda>c. c \<noteq> 61) (urlsafe_b64encode bs) = map enc_char (sextets bs)"
proof (induction bs rule: sextets.induct)
  case 1
  show ?case by (simp add: urlsafe_b64encode_def)
next
  case (2 a)
  show ?case
    using enc_char_not_pad [of "a div 4"] enc_char_not_pad [of "a mod 4 * 16"]
    by (simp add: urlsafe_b64encode_def BASE64_PAD_def enc_char_def
        urlsafe_encode_translation_def [of 61])
next
  case (3 a b)
  show ?case
    using enc_char_not_pad [of "a div 4"] enc_char_not_pad [of "a mod 4 * 16 + b div 16"]
      enc_char_not_pad [of "b mod 16 * 4"]
    by (simp add: urlsafe_b64encode_def BASE64_PAD_def enc_char_def
        urlsafe_encode_translation_def [of 61])
next
  case (4 a b c rest)
  then show ?case
    using enc_char_not_pad [of "a div 4"] enc_char_not_pad [of "a mod 4 * 16 + b div 16"]
      enc_char_not_pad [of "b mod 16 * 4 + c div 64"] enc_char_not_pad [of "c mod 64"]
    by (simp add: urlsafe_b64encode_def enc_char_def)
qed


lemma restore_padding_group:
  "restore_padding (a # b # c # d # ys) = a # b # c # d # restore_padding ys"
  by (simp add: restore_padding_def Let_def)

lemma a2b_pad:
  "a2b_loop q l p (61 # rest) =
     (if 2 \<le> q \<and> 4 \<le> q + (p + 1) then Inr []
      else a2b_loop q l (if 2 \<le> q then p + 1 else p) rest)"
  by (simp add: BASE64_PAD_def)

lemma a2b_data:
  assumes "table_a2b_base64 c = Some v" "c \<noteq> 61"
  shows "a2b_loop q l p (c # rest) =
     (if q = 0 then a2b_loop 1 v 0 rest
      else if q = 1 then emit (l * 4 + v div 16) (a2b_loop 2 (v mod 16) 0 rest)
      else if q = 2 then emit (l * 16 + v div 4) (a2b_loop 3 (v mod 4) 0 rest)
      else emit (l * 64 + v) (a2b_loop 0 0 0 rest))"
  using assms by (simp add: BASE64_PAD_def)

lemma a2b_enc_char:
  assumes "v < 64"
  shows "a2b_loop q l p (urlsafe_decode_translation (enc_char v) # rest) =
     (if q = 0 then a2b_loop 1 v 0 rest
      else if q = 1 then emit (l * 4 + v div 16) (a2b_loop 2 (v mod 16) 0 rest)
      else if q = 2 then emit (l * 16 + v div 4) (a2b_loop 3 (v mod 4) 0 rest)
      else emit (l * 64 + v) (a2b_loop 0 0 0 rest))"
  by (rule a2b_data [OF dec_enc_char [OF assms] dec_enc_char_not_pad])

lemma translate_pad: "urlsafe_decode_translation 61 = 61"
  by (simp add: urlsafe_decode_translation_def)

lemma a2b_roundtrip:
  "list_all (\<lambda>b. b < 256) bs \<Longrightarrow>
   a2b_loop 0 0 0 (map urlsafe_decode_translation (restore_padding (map enc_char (sextets bs))))
   = Inr bs"
proof (induction bs rule: sextets.induct)
  case 1
  show ?case by (simp add: restore_padding_def)
next
  case (2 a)
  then have a: "a < 256" by simp
  have pad: "restore_padding [enc_char (a div 4), enc_char (a mod 4 * 16)]
      = [enc_char (a div 4), enc_char (a mod 4 * 16), 61, 61]"
    by (simp add: restore_padding_def)
  have "a div 4 * 4 + a mod 4 * 16 div 16 = a" by simp
  then show ?case
    using sextet_bounds [OF a a a]
    by (simp add: pad translate_pad a2b_enc_char a2b_pad del: a2b_loop.simps)
next
  case (3 a b)
  then have ab: "a < 256" "b < 256" by simp_all
  have pad: "restore_padding [enc_char (a div 4), enc_char (a mod 4 * 16 + b div 16),
        enc_char (b mod 16 * 4)]
      = [enc_char (a div 4), enc_char (a mod 4 * 16 + b div 16), enc_char (b mod 16 * 4), 61]"
    by (simp add: restore_padding_def)
  have "b div 16 < 16" using ab by simp
  then have 1: "(a mod 4 * 16 + b div 16) mod 16 = b div 16" by simp
  have 2: "b div 16 * 16 + b mod 16 * 4 div 4 = b" by simp
  show ?case
    using sextet_bounds [OF ab ab(2)] quotient_of_byte [OF ab(2), of a] 1 2
    by (simp add: pad translate_pad a2b_enc_char a2b_pad del: a2b_loop.simps)
next
  case (4 a b c rest)
  then have abc: "a < 256" "b < 256" "c < 256" and rest: "list_all (\<lambda>b. b < 256) rest"
    by simp_all
  note IH = 4(1) [OF rest]
  show ?case
    using sextet_bounds [OF abc] quotient_of_byte [OF abc(2), of a]
      middle_of_byte [OF abc(2,3), of a] rest_of_byte [OF abc(3), of b] IH
    by (simp add: restore_padding_group a2b_enc_char del: a2b_loop.simps)
qed

section \<open>ASCII text\<close>

lemma utf8_decode_ascii: "list_all (\<lambda>c. c < 128) s \<Longrightarrow> utf8_decode s = Inr s"
  by (induction s) simp_all

lemma encode_ascii_ok: "list_all (\<lambda>c. c < 128) s \<Longrightarrow> encode_ascii s = Inr s"
  by (simp add: encode_ascii_def)

lemma ascii_bytes: "list_all (\<lambda>c. c < 128) s \<Longrightarrow> list_all (\<lambda>b. b < 256) (s :: nat list)"
  by (induction s) auto

lemma restore_padding_ascii:
  "list_all (\<lambda>c. c < 128) s \<Longrightarrow> list_all (\<lambda>c. c < 128) (restore_padding s)"
  by (simp add: restore_padding_def Let_def list_all_iff)

lemma enc_chars_ascii: "list_all (\<lambda>c. c < 128) (map enc_char vs)"
  by (simp add: list_all_iff enc_char_ascii)

text \<open>Encoding a buffer of ASCII text and taking the result through the base64 step.\<close>

lemma base64_step_encoded:
  assumes "list_all (\<lambda>c. c < 128) buff"
  shows "base64_step (restore_padding (map enc_char (sextets buff))) = Inr buff"
proof -
  have "list_all (\<lambda>c. c < 128) (restore_padding (map enc_char (sextets buff)))"
    by (rule restore_padding_ascii [OF enc_chars_ascii])
  then have "urlsafe_b64decode (restore_padding (map enc_char (sextets buff))) = Inr buff"
    using a2b_roundtrip [OF ascii_bytes [OF assms]]
    by (simp add: urlsafe_b64decode_def bytes_from_decode_data_def encode_ascii_def
        a2b_base64_def)
  then show ?thesis
    using utf8_decode_ascii [OF assms] by (simp add: base64_step_def)
qed

section \<open>Splitting what was joined\<close>

lemma split_no_sep: "sep \<notin> set t \<Longrightarrow> split sep t = [t]"
  by (induction t) auto

lemma split_append_sep:
  "sep \<notin> set t \<Longrightarrow> split sep (t @ sep # rest) = t # split sep rest"
  by (induction t) auto

lemma split_join:
  "ts \<noteq> [] \<Longrightarrow> \<forall>t \<in> set ts. sep \<notin> set t \<Longrightarrow> split sep (join [sep] ts) = ts"
proof (induction "[sep]" ts rule: join.induct)
  case 1
  then show ?case by simp
next
  case (2 x)
  then show ?case by (simp add: split_no_sep)
next
  case (3 x y ys)
  then show ?case by (simp add: split_append_sep)
qed

section \<open>Integers and their decimal strings\<close>

lemma dec_digits_digits: "list_all is_digit (dec_digits n)"
proof (induction n rule: dec_digits.induct)
  case (1 n)
  show ?case
  proof (cases "n < 10")
    case True
    then show ?thesis by (simp add: dec_digits.simps [of n] is_digit_def)
  next
    case False
    have "n mod 10 < 10" by simp
    then have "is_digit (48 + n mod 10)" unfolding is_digit_def by linarith
    with False 1 show ?thesis by (simp add: dec_digits.simps [of n])
  qed
qed

lemma dec_digits_not_empty: "dec_digits n \<noteq> []"
  by (simp add: dec_digits.simps [of n])

lemma digits_value_dec_digits: "digits_value 0 (dec_digits n) = n"
proof (induction n rule: dec_digits.induct)
  case (1 n)
  show ?case
  proof (cases "n < 10")
    case True
    then show ?thesis by (simp add: dec_digits.simps [of n] digits_value_def)
  next
    case False
    with 1 have "digits_value 0 (dec_digits (n div 10)) = n div 10" by simp
    with False show ?thesis by (simp add: dec_digits.simps [of n] digits_value_def)
  qed
qed

lemma scan_digits_all:
  "list_all is_digit ds \<Longrightarrow> ds \<noteq> [] \<or> \<not> u \<Longrightarrow>
   scan_digits ds acc n u = Some (digits_value acc ds, n + length ds, [])"
  by (induction ds arbitrary: acc n u) (auto simp add: digits_value_def)

lemma digit_props: "is_digit c \<Longrightarrow> \<not> py_isspace c \<and> c \<noteq> 43 \<and> c \<noteq> 45 \<and> c < 128"
  by (auto simp add: is_digit_def py_isspace_def)

lemma long_from_digits:
  assumes "list_all is_digit ds" "ds \<noteq> []" "length ds \<le> int_max_str_digits"
  shows "long_from_string ds = Inr (int (digits_value 0 ds))"
    and "long_from_string (45 # ds) = Inr (- int (digits_value 0 ds))"
proof -
  obtain c r where ds: "ds = c # r" using assms(2) by (cases ds) auto
  then have c: "is_digit c" using assms(1) by simp
  note p = digit_props [OF c]
  have scan: "scan_digits (c # r) 0 0 False = Some (digits_value 0 ds, length ds, [])"
    using scan_digits_all [OF assms(1), of False 0 0] ds by simp
  have lim: "\<not> int_max_str_digits < length ds" using assms(3) by simp
  show "long_from_string ds = Inr (int (digits_value 0 ds))"
    using p c scan lim by (simp add: long_from_string_def ds del: scan_digits.simps)
  have "\<not> py_isspace 45" by (simp add: py_isspace_def)
  then show "long_from_string (45 # ds) = Inr (- int (digits_value 0 ds))"
    using p c scan lim by (simp add: long_from_string_def ds del: scan_digits.simps)
qed

lemma long_from_too_many_digits:
  assumes "list_all is_digit ds" "int_max_str_digits < length ds"
  shows "long_from_string ds = Inl BuiltinValueError"
proof -
  from assms(2) obtain c r where ds: "ds = c # r" by (cases ds) auto
  then have c: "is_digit c" using assms(1) by simp
  note p = digit_props [OF c]
  have scan: "scan_digits (c # r) 0 0 False = Some (digits_value 0 ds, length ds, [])"
    using scan_digits_all [OF assms(1), of False 0 0] ds by simp
  show ?thesis
    using p c scan assms(2) by (simp add: long_from_string_def ds del: scan_digits.simps)
qed

lemma dec_digits_ascii: "list_all (\<lambda>c. c < 128) (dec_digits n)"
  using dec_digits_digits [of n] by (simp add: list_all_iff is_digit_def) force

lemma dec_int_ascii: "list_all (\<lambda>c. c < 128) (dec_int i)"
  by (simp add: dec_int_def dec_digits_ascii)

lemma dec_int_no_sep: "30 \<notin> set (dec_int i)"
proof -
  have "30 \<notin> set (dec_digits n)" for n
    using dec_digits_digits [of n] by (auto simp add: list_all_iff is_digit_def)
  then show ?thesis by (simp add: dec_int_def)
qed

lemma str_int_within: "within_limit i \<Longrightarrow> str_int i = Inr (dec_int i)"
  by (simp add: str_int_def within_limit_def)

lemma str_int_beyond: "\<not> within_limit i \<Longrightarrow> str_int i = Inl BuiltinValueError"
  by (simp add: str_int_def within_limit_def)

lemma str_int_cases: "str_int i = Inr s \<Longrightarrow> within_limit i \<and> s = dec_int i"
  by (auto simp add: str_int_def within_limit_def split: if_splits)

lemma py_int_dec_int:
  assumes "within_limit i"
  shows "py_int db (dec_int i) = Inr i"
proof -
  have "length (dec_digits (nat (- i))) \<le> int_max_str_digits" if "i < 0"
  proof -
    from that have "nat \<bar>i\<bar> = nat (- i)" by simp
    with assms show ?thesis by (simp add: within_limit_def)
  qed
  moreover have "length (dec_digits (nat i)) \<le> int_max_str_digits" if "\<not> i < 0"
  proof -
    from that have "nat \<bar>i\<bar> = nat i" by simp
    with assms show ?thesis by (simp add: within_limit_def)
  qed
  ultimately have "long_from_string (dec_int i) = Inr i"
    using long_from_digits [OF dec_digits_digits dec_digits_not_empty]
    by (simp add: dec_int_def digits_value_dec_digits)
  then show ?thesis using dec_int_ascii [of i] by (simp add: py_int_def)
qed

lemma py_int_too_many_digits:
  assumes "list_all is_digit ds" "int_max_str_digits < length ds"
  shows "py_int db ds = Inl BuiltinValueError"
proof -
  have "list_all (\<lambda>c. c < 128) ds"
    using assms(1) by (auto simp add: list_all_iff is_digit_def)
  then show ?thesis
    using long_from_too_many_digits [OF assms] by (simp add: py_int_def)
qed

text \<open>The limit in terms of the integer: at most 4300 digits means below \<open>10 ^ 4300\<close>.\<close>

lemma dec_digits_length_le: "n < 10 ^ k \<Longrightarrow> 0 < k \<Longrightarrow> length (dec_digits n) \<le> k"
proof (induction n arbitrary: k rule: dec_digits.induct)
  case (1 n)
  show ?case
  proof (cases "n < 10")
    case True
    with "1.prems" show ?thesis by (simp add: dec_digits.simps [of n])
  next
    case False
    from "1.prems" obtain k' where k: "k = Suc k'" by (cases k) auto
    with "1.prems" False have "0 < k'" by (cases k') auto
    moreover from "1.prems" k have "n div 10 < 10 ^ k'"
      by (simp add: less_mult_imp_div_less mult.commute)
    ultimately have "length (dec_digits (n div 10)) \<le> k'" using "1.IH" False by simp
    with False k show ?thesis by (simp add: dec_digits.simps [of n])
  qed
qed

lemma dec_digits_length_gt: "10 ^ k \<le> n \<Longrightarrow> k < length (dec_digits n)"
proof (induction n arbitrary: k rule: dec_digits.induct)
  case (1 n)
  show ?case
  proof (cases "n < 10")
    case True
    then show ?thesis
    proof (cases k)
      case 0
      then show ?thesis by (simp add: dec_digits.simps [of n])
    next
      case (Suc k')
      have "(1::nat) \<le> 10 ^ k'" by simp
      then have "(10::nat) \<le> 10 * 10 ^ k'" by linarith
      with "1.prems" Suc True show ?thesis by simp
    qed
  next
    case False
    show ?thesis
    proof (cases k)
      case 0
      with False show ?thesis by (simp add: dec_digits.simps [of n])
    next
      case (Suc k')
      with "1.prems" have "10 * 10 ^ k' \<le> n" by simp
      then have "10 ^ k' \<le> n div 10" by (simp add: less_eq_div_iff_mult_less_eq mult.commute)
      then have "k' < length (dec_digits (n div 10))" using "1.IH" False by simp
      with False Suc show ?thesis by (simp add: dec_digits.simps [of n])
    qed
  qed
qed

lemma within_limit_iff: "within_limit i = (\<bar>i\<bar> < 10 ^ int_max_str_digits)"
proof
  assume "within_limit i"
  then have "\<not> 10 ^ int_max_str_digits \<le> nat \<bar>i\<bar>"
    using dec_digits_length_gt [of int_max_str_digits "nat \<bar>i\<bar>"]
    by (auto simp add: within_limit_def)
  then have "nat \<bar>i\<bar> < 10 ^ int_max_str_digits" by simp
  then have "int (nat \<bar>i\<bar>) < int (10 ^ int_max_str_digits)" by (simp only: of_nat_less_iff)
  then show "\<bar>i\<bar> < 10 ^ int_max_str_digits" by simp
next
  have pos: "0 < int_max_str_digits" by (simp add: int_max_str_digits_def)
  assume "\<bar>i\<bar> < 10 ^ int_max_str_digits"
  then have "int (nat \<bar>i\<bar>) < int (10 ^ int_max_str_digits)" by simp
  then have "nat \<bar>i\<bar> < 10 ^ int_max_str_digits" by (simp only: of_nat_less_iff)
  from dec_digits_length_le [OF this pos] show "within_limit i"
    by (simp add: within_limit_def)
qed

lemma beyond_limit: "\<not> within_limit (10 ^ int_max_str_digits)"
proof -
  have "\<bar>10 ^ int_max_str_digits :: int\<bar> = 10 ^ int_max_str_digits" by simp
  then show ?thesis by (simp add: within_limit_iff)
qed

section \<open>Encode on a well-formed path\<close>

lemma clean_not_empty: "clean s \<Longrightarrow> s \<noteq> []"
  by (simp add: clean_def)

lemma pair_loop_wf:
  "wf_pairs path \<Longrightarrow>
   pair_loop (pairs_of path) acc = Inr (acc @ map pair_string (pairs_of path))"
  by (induction path arbitrary: acc rule: wf_pairs.induct)
    (simp_all add: pair_string_def clean_not_empty str_int_within)

lemma join_Cons: "join sep (x # xs) = x @ concat (map ((@) sep) xs)"
  by (induction xs arbitrary: x) simp_all

lemma concat_pair_strings:
  "wf_pairs path \<Longrightarrow>
   concat (map ((@) [SEPARATOR]) (map pair_string (pairs_of path)))
   = concat (map ((@) [SEPARATOR]) (map token_of path))"
  by (induction path rule: wf_pairs.induct) (simp_all add: pair_string_def)

lemma join_pair_strings:
  assumes "wf_pairs path"
  shows "join [SEPARATOR] (map pair_string (pairs_of path)) = join [SEPARATOR] (map token_of path)"
proof (cases path rule: wf_pairs.cases)
  case 1
  then show ?thesis by simp
next
  case (2 k s rest)
  with assms have "wf_pairs rest" by simp
  from concat_pair_strings [OF this] 2 show ?thesis
    by (simp add: join_Cons pair_string_def)
next
  case (3 k i rest)
  with assms have "wf_pairs rest" by simp
  from concat_pair_strings [OF this] 3 show ?thesis
    by (simp add: join_Cons pair_string_def)
qed (use assms in simp_all)

lemma wf_pairs_plain: "wf_pairs path \<Longrightarrow> list_all plain path"
  by (induction path rule: wf_pairs.induct) (simp_all add: plain_def)

lemma wf_pairs_even: "wf_pairs path \<Longrightarrow> length path AND 1 = 0"
  by (induction path rule: wf_pairs.induct) (simp_all add: and_one_eq)

lemma token_of_plain:
  assumes "plain v"
  shows "SEPARATOR \<notin> set (token_of v)" and "list_all (\<lambda>c. c < 128) (token_of v)"
    and "token_value db (token_of v) = Inr v"
proof -
  show "SEPARATOR \<notin> set (token_of v)"
    using assms dec_int_no_sep
    by (cases v) (auto simp add: plain_def clean_def list_all_iff SEPARATOR_def INTPREFIX_def)
  show "list_all (\<lambda>c. c < 128) (token_of v)"
    using assms dec_int_ascii
    by (cases v) (auto simp add: plain_def clean_def list_all_iff INTPREFIX_def)
  show "token_value db (token_of v) = Inr v"
  proof (cases v)
    case (PStr s)
    with assms obtain c r where "s = c # r" "c \<noteq> 31"
      by (cases s) (auto simp add: plain_def clean_def)
    with PStr show ?thesis by (simp add: token_value_def INTPREFIX_def)
  next
    case (PInt i)
    with assms have "within_limit i" by (simp add: plain_def)
    from py_int_dec_int [OF this] PInt show ?thesis by (simp add: token_value_def)
  qed
qed

lemma bits_loop_collect:
  "bits_loop db toks acc =
     (case collect (map (token_value db) toks) of Inl e \<Rightarrow> Inl e | Inr vs \<Rightarrow> Inr (acc @ vs))"
proof (induction toks arbitrary: acc)
  case Nil
  show ?case by simp
next
  case (Cons tok toks)
  show ?case
  proof (cases tok)
    case Nil
    then show ?thesis by (simp add: token_value_def)
  next
    case (Cons c tail)
    then show ?thesis
      by (simp add: token_value_def Cons.IH split: sum.splits)
  qed
qed

lemma collect_tokens_plain:
  "list_all plain path \<Longrightarrow> collect (map (token_value db) (map token_of path)) = Inr path"
  by (induction path) (simp_all add: token_of_plain)

lemma joined_ascii:
  "list_all plain path \<Longrightarrow> list_all (\<lambda>c. c < 128) (join [SEPARATOR] (map token_of path))"
proof (induction path)
  case Nil
  show ?case by simp
next
  case (Cons v path)
  then have "list_all (\<lambda>c. c < 128) (concat (map ((@) [SEPARATOR]) (map token_of path)))"
    by (cases path) (simp_all add: join_Cons SEPARATOR_def)
  with Cons.prems token_of_plain(2) [of v] show ?case
    by (simp add: join_Cons)
qed

lemma encode_well_formed:
  assumes "wf_pairs (flat_path k)"
  shows "get_resource_id_from_key k
         = Inr (map enc_char (sextets (join [SEPARATOR] (map token_of (flat_path k)))))"
proof -
  let ?buff = "join [SEPARATOR] (map token_of (flat_path k))"
  have ascii: "list_all (\<lambda>c. c < 128) ?buff"
    by (rule joined_ascii [OF wf_pairs_plain [OF assms]])
  have "utf8_decode (map enc_char (sextets ?buff)) = Inr (map enc_char (sextets ?buff))"
    by (rule utf8_decode_ascii [OF enc_chars_ascii])
  then show ?thesis
    using wf_pairs_even [OF assms] pair_loop_wf [OF assms, of "[]"] join_pair_strings [OF assms]
      encode_ascii_ok [OF ascii]
    by (simp add: get_resource_id_from_key_def strip_padding)
qed

lemma tokens_of_encoded:
  assumes "well_formed path"
  shows "key_tokens db (map enc_char (sextets (join [SEPARATOR] (map token_of path)))) = Inr path"
proof -
  from assms have wf: "wf_pairs path" and ne: "path \<noteq> []" by (simp_all add: well_formed_def)
  note plain = wf_pairs_plain [OF wf]
  have "\<forall>t \<in> set (map token_of path). SEPARATOR \<notin> set t"
    using plain token_of_plain(1) by (auto simp add: list_all_iff)
  then have "split SEPARATOR (join [SEPARATOR] (map token_of path)) = map token_of path"
    using ne by (intro split_join) simp_all
  then show ?thesis
    using base64_step_encoded [OF joined_ascii [OF plain]] collect_tokens_plain [OF plain, of db]
    by (simp add: key_tokens_def bits_loop_collect)
qed


section \<open>The failures of the base64 step\<close>







lemma emit_error: "emit x r = Inl e \<Longrightarrow> r = Inl e"
  by (cases r) simp_all

lemma a2b_loop_error: "a2b_loop q l p s = Inl e \<Longrightarrow> e = BinasciiError"
proof (induction s arbitrary: q l p)
  case Nil
  then show ?case by (simp split: if_splits)
next
  case (Cons c s)
  show ?case
  proof (cases "c = 61")
    case True
    with Cons.prems have "a2b_loop q l (if 2 \<le> q then p + 1 else p) s = Inl e"
      by (simp add: a2b_pad del: a2b_loop.simps split: if_splits)
    then show ?thesis by (rule Cons.IH)
  next
    case False
    show ?thesis
    proof (cases "table_a2b_base64 c")
      case None
      with False Cons.prems have "a2b_loop q l p s = Inl e" by (simp add: BASE64_PAD_def)
      then show ?thesis by (rule Cons.IH)
    next
      case (Some v)
      note step = a2b_data [OF Some False, of q l p s]
      consider "q = 0" | "q = 1" | "q = 2" | "q \<noteq> 0" "q \<noteq> 1" "q \<noteq> 2" by blast
      then show ?thesis
      proof cases
        case 1
        with Cons.prems step have "a2b_loop 1 v 0 s = Inl e" by simp
        then show ?thesis by (rule Cons.IH)
      next
        case 2
        with Cons.prems step have "emit (l * 4 + v div 16) (a2b_loop 2 (v mod 16) 0 s) = Inl e"
          by simp
        from emit_error [OF this] show ?thesis by (rule Cons.IH)
      next
        case 3
        with Cons.prems step have "emit (l * 16 + v div 4) (a2b_loop 3 (v mod 4) 0 s) = Inl e"
          by simp
        from emit_error [OF this] show ?thesis by (rule Cons.IH)
      next
        case 4
        with Cons.prems step have "emit (l * 64 + v) (a2b_loop 0 0 0 s) = Inl e"
          by simp
        from emit_error [OF this] show ?thesis by (rule Cons.IH)
      qed
    qed
  qed
qed

lemma utf8_decode_error: "utf8_decode s = Inl e \<Longrightarrow> e = UnicodeDecodeError"
proof (induction s rule: utf8_decode.induct)
  case 1
  then show ?case by simp
next
  case (2 b0 r0)
  consider (one) "b0 < 128"
    | (two) "\<not> b0 < 128" "194 \<le> b0 \<and> b0 < 224"
    | (three) "\<not> b0 < 128" "\<not> (194 \<le> b0 \<and> b0 < 224)" "224 \<le> b0 \<and> b0 < 240"
    | (four) "\<not> b0 < 128" "\<not> (194 \<le> b0 \<and> b0 < 224)" "\<not> (224 \<le> b0 \<and> b0 < 240)"
        "240 \<le> b0 \<and> b0 < 245"
    | (none) "\<not> b0 < 128" "\<not> (194 \<le> b0 \<and> b0 < 224)" "\<not> (224 \<le> b0 \<and> b0 < 240)"
        "\<not> (240 \<le> b0 \<and> b0 < 245)"
    by blast
  then show ?case
  proof cases
    case one
    with "2.prems" have "emit b0 (utf8_decode r0) = Inl e" by simp
    from emit_error [OF this] show ?thesis by (rule "2.IH"(1) [OF one])
  next
    case two
    show ?thesis
    proof (cases r0)
      case Nil
      with two "2.prems" show ?thesis by simp
    next
      case (Cons b1 r1)
      show ?thesis
      proof (cases "cont b1")
        case True
        with two Cons "2.prems"
        have "emit ((b0 - 192) * 64 + (b1 - 128)) (utf8_decode r1) = Inl e" by simp
        from emit_error [OF this] show ?thesis
          by (rule "2.IH"(2) [OF two Cons True])
      next
        case False
        with two Cons "2.prems" show ?thesis by simp
      qed
    qed
  next
    case three
    show ?thesis
    proof (cases r0)
      case Nil
      with three "2.prems" show ?thesis by simp
    next
      case c1: (Cons b1 r1)
      show ?thesis
      proof (cases r1)
        case Nil
        with three c1 "2.prems" show ?thesis by simp
      next
        case c2: (Cons b2 r2)
        let ?ok = "(if b0 = 224 then 160 else 128) \<le> b1 \<and> b1 < (if b0 = 237 then 160 else 192)
                \<and> cont b2"
        show ?thesis
        proof (cases ?ok)
          case True
          with three c1 c2 "2.prems"
          have "emit ((b0 - 224) * 4096 + (b1 - 128) * 64 + (b2 - 128)) (utf8_decode r2) = Inl e"
            by simp
          from emit_error [OF this] show ?thesis
            by (rule "2.IH"(3) [OF three c1 c2 True])
        next
          case False
          with three c1 c2 "2.prems" show ?thesis by simp
        qed
      qed
    qed
  next
    case four
    show ?thesis
    proof (cases r0)
      case Nil
      with four "2.prems" show ?thesis by simp
    next
      case c1: (Cons b1 r1)
      show ?thesis
      proof (cases r1)
        case Nil
        with four c1 "2.prems" show ?thesis by simp
      next
        case c2: (Cons b2 r2)
        show ?thesis
        proof (cases r2)
          case Nil
          with four c1 c2 "2.prems" show ?thesis by simp
        next
          case c3: (Cons b3 r3)
          let ?ok = "(if b0 = 240 then 144 else 128) \<le> b1 \<and> b1 < (if b0 = 244 then 144 else 192)
                \<and> cont b2 \<and> cont b3"
          show ?thesis
          proof (cases ?ok)
            case True
            with four c1 c2 c3 "2.prems"
            have "emit ((b0 - 240) * 262144 + (b1 - 128) * 4096 + (b2 - 128) * 64 + (b3 - 128))
                    (utf8_decode r3) = Inl e"
              by simp
            from emit_error [OF this] show ?thesis
              by (rule "2.IH"(4) [OF four c1 c2 c3 True])
          next
            case False
            with four c1 c2 c3 "2.prems" show ?thesis by simp
          qed
        qed
      qed
    qed
  next
    case none
    with "2.prems" show ?thesis by simp
  qed
qed

lemma urlsafe_b64decode_error:
  assumes "urlsafe_b64decode s = Inl e"
  shows "e = BuiltinValueError \<or> e = BinasciiError"
proof (cases "encode_ascii s")
  case (Inl x)
  with assms show ?thesis by (simp add: urlsafe_b64decode_def bytes_from_decode_data_def)
next
  case (Inr b)
  with assms have "a2b_loop 0 0 0 (map urlsafe_decode_translation b) = Inl e"
    by (simp add: urlsafe_b64decode_def bytes_from_decode_data_def a2b_base64_def)
  from a2b_loop_error [OF this] show ?thesis by simp
qed

lemma base64_step_error:
  assumes "base64_step s = Inl e"
  shows "e = InvalidIdException decode_msg \<or> e = BuiltinValueError \<or> e = UnicodeDecodeError"
proof (cases "urlsafe_b64decode s")
  case (Inl e')
  from urlsafe_b64decode_error [OF this] Inl assms show ?thesis
    by (auto simp add: base64_step_def decode_msg_def)
next
  case (Inr b)
  with assms have "utf8_decode b = Inl e" by (simp add: base64_step_def)
  from utf8_decode_error [OF this] show ?thesis by simp
qed




section \<open>Characters outside the alphabet\<close>











section \<open>When the decoder rejects\<close>







section \<open>Failures of Encode\<close>

lemma percent_pair: "py_str a = Inr s \<Longrightarrow> percent pair_err (Tup [a, b]) = Inl TypeError"
  by (simp add: percent_def pair_err_def)

lemma percent_key:
  "percent pair_err (Obj (PStr s))
   = Inr (text_of ''Key must have an even number of positional pairs. Received: '' @ s)"
  by (simp add: percent_def pair_err_def)

section \<open>The token loop of Decode\<close>

lemma long_from_string_error: "long_from_string s = Inl e \<Longrightarrow> e = BuiltinValueError"
  unfolding long_from_string_def Let_def
  by (simp split: list.splits if_splits option.splits prod.splits)

lemma py_int_error: "py_int db s = Inl e \<Longrightarrow> e = BuiltinValueError"
  unfolding py_int_def by (rule long_from_string_error)

lemma py_int_empty: "py_int db [] = Inl BuiltinValueError"
  by (simp add: py_int_def long_from_string_def)

lemma token_value_error:
  "token_value db tok = Inl e \<Longrightarrow> e = IndexError \<or> e = BuiltinValueError"
  by (auto simp add: token_value_def split: list.splits if_splits sum.splits dest: py_int_error)

lemma collect_error: "collect rs = Inl e \<Longrightarrow> Inl e \<in> set rs"
  by (induction rs rule: collect.induct) (auto split: sum.splits)

lemma collect_fails: "Inl e \<in> set rs \<Longrightarrow> \<exists>e'. collect rs = Inl e'"
  by (induction rs rule: collect.induct) (auto split: sum.splits)

lemma key_tokens_collect:
  "base64_step (restore_padding rid) = Inr decoded \<Longrightarrow>
   key_tokens db rid = collect (map (token_value db) (split SEPARATOR decoded))"
  by (simp add: key_tokens_def bits_loop_collect split: sum.splits)

section \<open>The resolve path\<close>

lemma percent_invalid_id: "percent invalid_id_err (Obj (PStr rid)) = Inr (invalid_id_msg rid)"
  by (simp add: percent_def invalid_id_err_def invalid_id_msg_def)

lemma percent_kind:
  "percent kind_err (Tup [a, PStr b])
   = (case py_str a of
        Inl e \<Rightarrow> Inl e
      | Inr s \<Rightarrow> Inr (text_of ''Expected keystr for kind '' @ s @ text_of '' but found kind ''
                     @ b @ text_of '' instead.''))"
  by (simp add: percent_def kind_err_def split: sum.splits)

lemma py_str_error: "py_str v = Inl e \<Longrightarrow> e = BuiltinValueError"
  by (cases v) (auto simp add: str_int_def split: if_splits)

lemma key_tokens_error: "key_tokens db rid = Inl e \<Longrightarrow> caught e"
proof -
  assume a: "key_tokens db rid = Inl e"
  show "caught e"
  proof (cases "base64_step (restore_padding rid)")
    case (Inl e')
    with a have "e' = e" by (simp add: key_tokens_def)
    with base64_step_error [OF Inl] show ?thesis by auto
  next
    case (Inr decoded)
    from key_tokens_collect [OF Inr, of db] a
    have "collect (map (token_value db) (split SEPARATOR decoded)) = Inl e" by simp
    from collect_error [OF this] obtain tok where "token_value db tok = Inl e" by auto
    from token_value_error [OF this] show ?thesis by auto
  qed
qed

lemma get_entity_str:
  "rid \<noteq> [] \<Longrightarrow>
   get_entity_by_resource_id ds db p ek (PStr rid) =
     (case resolve_body ds db p ek rid of
        (Inr r, p') \<Rightarrow> (Inr r, p')
      | (Inl e, p') \<Rightarrow>
          (if caught e then Inl (InvalidIdException (invalid_id_msg rid)) else Inl e, p'))"
  by (simp add: get_entity_by_resource_id_def percent_invalid_id split: prod.splits sum.splits)

lemma resolve_body_key_error:
  "get_key_from_resource_id ds db p rid = (Inl e, p') \<Longrightarrow>
   resolve_body ds db p ek rid = (Inl e, p')"
  by (simp add: resolve_body_def)

lemma resolve_body_mismatch:
  "get_key_from_resource_id ds db p rid = (Inr k, p') \<Longrightarrow> PStr (kind k) \<noteq> ek \<Longrightarrow>
   \<exists>e. caught e \<and> resolve_body ds db p ek rid = (Inl e, p')"
  by (auto simp add: resolve_body_def percent_kind split: sum.splits dest: py_str_error)

lemma resolve_body_lookup:
  "get_key_from_resource_id ds db p rid = (Inr k, p') \<Longrightarrow> PStr (kind k) = ek \<Longrightarrow>
   Client ds p' = (Inr c, p'') \<Longrightarrow>
   resolve_body ds db p ek rid = (client_get ds c k, p'')"
  by (auto simp add: resolve_body_def)

lemma get_key_decode_error:
  "key_tokens db rid = Inl e \<Longrightarrow> get_key_from_resource_id ds db p rid = (Inl e, p)"
  by (simp add: get_key_from_resource_id_def)

lemma tokens_user_1:
  "key_tokens db (text_of ''VXNlckVudGl0eR4fMQ'') = Inr [PStr (text_of ''UserEntity''), PInt 1]"
  by (simp add: codec_defs)

lemma tokens_bad_padding:
  "key_tokens db (text_of ''VXNlckVudGl0eR5k3'') = Inl (InvalidIdException decode_msg)"
  by (simp add: codec_defs decode_msg_def)

section \<open>The client singleton\<close>

lemma Client_cached: "ds_client p = Some c \<Longrightarrow> Client ds p = (Inr c, p)"
  by (simp add: Client_def)

lemma Client_one_client: "one_client p \<Longrightarrow> one_client (snd (Client ds p))"
  by (auto simp add: Client_def one_client_def split: option.splits sum.splits)

lemma get_key_state:
  "snd (get_key_from_resource_id ds db p rid) = p
   \<or> snd (get_key_from_resource_id ds db p rid) = snd (Client ds p)"
  by (auto simp add: get_key_from_resource_id_def split: sum.splits prod.splits)

lemma get_key_one_client:
  "one_client p \<Longrightarrow> one_client (snd (get_key_from_resource_id ds db p rid))"
  using get_key_state [of ds db p rid] Client_one_client [of p ds] by auto

lemma resolve_body_one_client:
  "one_client p \<Longrightarrow> one_client (snd (resolve_body ds db p ek rid))"
proof -
  assume p: "one_client p"
  obtain r p' where g: "get_key_from_resource_id ds db p rid = (r, p')" by (cases "get_key_from_resource_id ds db p rid")
  with get_key_one_client [OF p, of ds db rid] have p': "one_client p'" by simp
  from Client_one_client [OF p', of ds] g p' show ?thesis
    by (auto simp add: resolve_body_def percent_kind split: sum.splits prod.splits)
qed

lemma get_entity_state:
  "snd (get_entity_by_resource_id ds db p ek rid) = p
   \<or> (\<exists>r. snd (get_entity_by_resource_id ds db p ek rid) = snd (resolve_body ds db p ek r))"
proof (cases rid)
  case (PInt i)
  have "snd (get_entity_by_resource_id ds db p ek (PInt i)) = p"
    by (simp add: get_entity_by_resource_id_def split: sum.splits)
  with PInt show ?thesis by simp
next
  case (PStr x)
  show ?thesis
  proof (cases "x = []")
    case True
    have "snd (get_entity_by_resource_id ds db p ek (PStr [])) = p"
      by (simp add: get_entity_by_resource_id_def split: sum.splits)
    with PStr True show ?thesis by simp
  next
    case False
    have "snd (get_entity_by_resource_id ds db p ek (PStr x)) = snd (resolve_body ds db p ek x)"
      by (simp add: get_entity_str [OF False] split: prod.splits sum.splits)
    with PStr show ?thesis by blast
  qed
qed

lemma get_entity_one_client:
  "one_client p \<Longrightarrow> one_client (snd (get_entity_by_resource_id ds db p ek rid))"
  using get_entity_state [of ds db p ek rid] resolve_body_one_client [of p ds db ek]
  by auto

lemma run_one_client: "one_client p \<Longrightarrow> one_client (run ds db cs p)"
proof (induction cs arbitrary: p)
  case Nil
  then show ?case by simp
next
  case (Cons c cs)
  then show ?case
    by (cases c) (simp_all add: Client_one_client get_key_one_client get_entity_one_client)
qed

lemma get_key_cached:
  "ds_client p = Some c \<Longrightarrow> snd (get_key_from_resource_id ds db p rid) = p"
  by (simp add: get_key_from_resource_id_def Client_cached split: sum.splits)

lemma resolve_body_cached:
  "ds_client p = Some c \<Longrightarrow> snd (resolve_body ds db p ek rid) = p"
  using get_key_cached [of p c ds db rid]
  by (auto simp add: resolve_body_def Client_cached percent_kind split: sum.splits prod.splits)

lemma get_entity_cached:
  "ds_client p = Some c \<Longrightarrow> snd (get_entity_by_resource_id ds db p ek rid) = p"
  using get_entity_state [of ds db p ek rid] resolve_body_cached [of p c ds db ek]
  by auto

lemma run_cached: "ds_client p = Some c \<Longrightarrow> run ds db cs p = p"
proof (induction cs)
  case Nil
  show ?case by simp
next
  case (Cons a cs)
  then show ?case
    by (cases a) (simp_all add: Client_cached get_key_cached get_entity_cached)
qed

lemma one_client_length: "one_client p \<Longrightarrow> length (made p) \<le> 1"
  by (auto simp add: one_client_def split: option.splits)

lemma percent_pair_str: "percent pair_err (Tup [PStr k, b]) = Inl TypeError"
  by (rule percent_pair [of _ k]) simp

lemma Client_success: "Client ds p = (Inr c, p') \<Longrightarrow> ds_client p' = Some c"
  by (auto simp add: Client_def split: option.splits sum.splits)

lemma get_key_success:
  assumes "get_key_from_resource_id ds db p rid = (Inr k, p')"
  shows "\<exists>c. ds_client p' = Some c"
proof (cases "key_tokens db rid")
  case (Inl e)
  with assms show ?thesis by (simp add: get_key_from_resource_id_def)
next
  case (Inr toks)
  obtain r q where c: "Client ds p = (r, q)" by (cases "Client ds p")
  show ?thesis
  proof (cases r)
    case (Inl e)
    with assms Inr c show ?thesis by (simp add: get_key_from_resource_id_def)
  next
    case r: (Inr h)
    with assms Inr c have "q = p'" by (simp add: get_key_from_resource_id_def)
    with Client_success [of ds p h q] c r show ?thesis by simp
  qed
qed

lemma resolve_body_match:
  assumes "get_key_from_resource_id ds db p rid = (Inr k, p')" "PStr (kind k) = ek"
    "ds_client p' = Some c"
  shows "resolve_body ds db p ek rid = (client_get ds c k, p')"
  using assms Client_cached [OF assms(3), of ds] by (simp add: resolve_body_def)

lemma digits_replicate: "list_all is_digit (replicate n 48)"
  by (induction n) (simp_all add: is_digit_def)

section \<open>Concrete vectors\<close>

lemma encode_keyname:
  "get_resource_id_from_key
     \<lparr>flat_path = [PStr (text_of ''UserEntity''), PStr (text_of ''does_not_exist'')],
      kind = kd, key_str = ks\<rparr>
   = Inr (text_of ''VXNlckVudGl0eR5kb2VzX25vdF9leGlzdA'')"
  by (simp add: get_resource_id_from_key_def codec_defs)

lemma encode_id:
  "get_resource_id_from_key
     \<lparr>flat_path = [PStr (text_of ''UserEntity''), PInt 1], kind = kd, key_str = ks\<rparr>
   = Inr (text_of ''VXNlckVudGl0eR4fMQ'')"
  by (simp add: get_resource_id_from_key_def codec_defs)

lemma tokens_keyname:
  "key_tokens db (text_of ''VXNlckVudGl0eR5kb2VzX25vdF9leGlzdA'')
   = Inr [PStr (text_of ''UserEntity''), PStr (text_of ''does_not_exist'')]"
  by (simp add: codec_defs)

lemma tokens_event:
  "key_tokens db (text_of ''RXZlbnQeHzU2OTE5MDI1OTA0NTE3MTI'')
   = Inr [PStr (text_of ''Event''), PInt 5691902590451712]"
  by (simp add: codec_defs)

text \<open>
  C6. The vectors of the test suite hold exactly. Encoding the key
  (UserEntity, does_not_exist) gives VXNlckVudGl0eR5kb2VzX25vdF9leGlzdA and encoding
  (UserEntity, 1) gives VXNlckVudGl0eR4fMQ. Decoding VXNlckVudGl0eR5kb2VzX25vdF9leGlzdA
  hands the tokens (UserEntity, does_not_exist) to the key constructor of the client,
  and decoding RXZlbnQeHzU2OTE5MDI1OTA0NTE3MTI hands it (Event, 5691902590451712), the
  identifier being an integer, not a string, and larger than 32 bits hold.
\<close>

theorem concrete_vectors:
  "get_resource_id_from_key
     \<lparr>flat_path = [PStr (text_of ''UserEntity''), PStr (text_of ''does_not_exist'')],
      kind = kd, key_str = ks\<rparr>
   = Inr (text_of ''VXNlckVudGl0eR5kb2VzX25vdF9leGlzdA'')
   \<and> get_resource_id_from_key
     \<lparr>flat_path = [PStr (text_of ''UserEntity''), PInt 1], kind = kd, key_str = ks\<rparr>
   = Inr (text_of ''VXNlckVudGl0eR4fMQ'')
   \<and> get_key_from_resource_id ds db p (text_of ''VXNlckVudGl0eR5kb2VzX25vdF9leGlzdA'')
   = (case Client ds p of
        (Inl e, p') \<Rightarrow> (Inl e, p')
      | (Inr c, p') \<Rightarrow>
          (client_key ds c [PStr (text_of ''UserEntity''), PStr (text_of ''does_not_exist'')], p'))
   \<and> get_key_from_resource_id ds db p (text_of ''RXZlbnQeHzU2OTE5MDI1OTA0NTE3MTI'')
   = (case Client ds p of
        (Inl e, p') \<Rightarrow> (Inl e, p')
      | (Inr c, p') \<Rightarrow> (client_key ds c [PStr (text_of ''Event''), PInt 5691902590451712], p'))
   \<and> (2 :: int) ^ 32 < 5691902590451712"
  by (simp add: get_key_from_resource_id_def encode_keyname encode_id tokens_keyname tokens_event)

section \<open>Round trip\<close>

text \<open>
  C1, as amended. For every key whose flat path is well formed (a non-empty sequence
  of pairs; every kind a non-empty ASCII string, every identifier a non-empty ASCII
  string or an integer other than 0 whose decimal string has at most 4300 digits, that
  is, of absolute value below 10 to the power 4300; no string holding the separator
  30 or the marker 31), Encode returns a resource id, and Decode of that resource id
  hands the client's key constructor exactly the flat path: the same components in the
  same order, every kind string unchanged, an integer identifier as an integer and a
  string identifier as a string.
\<close>

theorem round_trip:
  assumes "well_formed (flat_path k)"
  shows "\<exists>rid. get_resource_id_from_key k = Inr rid
           \<and> key_tokens db rid = Inr (flat_path k)
           \<and> get_key_from_resource_id ds db p rid
             = (case Client ds p of
                  (Inl e, p') \<Rightarrow> (Inl e, p')
                | (Inr c, p') \<Rightarrow> (client_key ds c (flat_path k), p'))"
proof -
  from assms have wf: "wf_pairs (flat_path k)" by (simp add: well_formed_def)
  show ?thesis
    using encode_well_formed [OF wf] tokens_of_encoded [OF assms, of db]
    by (simp add: get_key_from_resource_id_def)
qed

theorem round_trip_witness:
  "well_formed [PStr (text_of ''Event''), PInt 5691902590451712,
                PStr (text_of ''Venue''), PStr (text_of ''gamut'')]
   \<and> (\<exists>rid. get_resource_id_from_key
               \<lparr>flat_path = [PStr (text_of ''Event''), PInt 5691902590451712,
                             PStr (text_of ''Venue''), PStr (text_of ''gamut'')],
                kind = text_of ''Venue'', key_str = []\<rparr> = Inr rid
           \<and> key_tokens ascii_db rid
             = Inr [PStr (text_of ''Event''), PInt 5691902590451712,
                    PStr (text_of ''Venue''), PStr (text_of ''gamut'')]
           \<and> get_key_from_resource_id stub_ds ascii_db initial rid
             = (Inr \<lparr>flat_path = [PStr (text_of ''Event''), PInt 5691902590451712,
                                  PStr (text_of ''Venue''), PStr (text_of ''gamut'')],
                     kind = text_of ''Venue'', key_str = []\<rparr>,
                \<lparr>ds_client = Some 0, calls = 1, made = [0]\<rparr>))"
proof -
  have wf: "well_formed [PStr (text_of ''Event''), PInt 5691902590451712,
                PStr (text_of ''Venue''), PStr (text_of ''gamut'')]"
    by (simp add: well_formed_def clean_def text_of_def within_limit_def int_max_str_digits_def
        dec_digits.simps)
  have c: "Client stub_ds initial = (Inr 0, \<lparr>ds_client = Some 0, calls = 1, made = [0]\<rparr>)"
    by (simp add: Client_def stub_ds_def initial_def)
  let ?path = "[PStr (text_of ''Event''), PInt 5691902590451712,
                PStr (text_of ''Venue''), PStr (text_of ''gamut'')]"
  let ?k = "\<lparr>flat_path = ?path, kind = text_of ''Venue'', key_str = []\<rparr>"
  have "well_formed (flat_path ?k)" using wf by simp
  from round_trip [OF this, of ascii_db stub_ds initial]
  obtain rid where rid: "get_resource_id_from_key ?k = Inr rid
      \<and> key_tokens ascii_db rid = Inr (flat_path ?k)
      \<and> get_key_from_resource_id stub_ds ascii_db initial rid
       = (case Client stub_ds initial of
            (Inl e, p') \<Rightarrow> (Inl e, p')
          | (Inr c, p') \<Rightarrow> (client_key stub_ds c (flat_path ?k), p'))" ..
  have key: "client_key stub_ds 0 ?path = Inr ?k"
    by (simp add: stub_ds_def stub_key_def)
  have 1: "get_resource_id_from_key ?k = Inr rid"
    using rid by (rule conjunct1)
  have 2: "key_tokens ascii_db rid = Inr ?path"
    using rid [THEN conjunct2, THEN conjunct1] by simp
  have 3: "get_key_from_resource_id stub_ds ascii_db initial rid
      = (Inr ?k, \<lparr>ds_client = Some 0, calls = 1, made = [0]\<rparr>)"
    using rid [THEN conjunct2, THEN conjunct2] by (simp add: c key)
  show ?thesis
  proof (intro conjI exI)
    show "well_formed ?path" by (rule wf)
    show "get_resource_id_from_key ?k = Inr rid" by (rule 1)
    show "key_tokens ascii_db rid = Inr ?path" by (rule 2)
    show "get_key_from_resource_id stub_ds ascii_db initial rid
      = (Inr ?k, \<lparr>ds_client = Some 0, calls = 1, made = [0]\<rparr>)" by (rule 3)
  qed
qed

theorem round_trip_counterexample:
  "get_resource_id_from_key
     \<lparr>flat_path = [PStr (text_of ''UserEntity''), PInt 0], kind = text_of ''UserEntity'',
      key_str = []\<rparr> = Inl TypeError
   \<and> get_resource_id_from_key
     \<lparr>flat_path = [PStr [233], PStr (text_of ''x'')], kind = [233], key_str = []\<rparr>
     = Inl UnicodeEncodeError
   \<and> get_resource_id_from_key
     \<lparr>flat_path = [PStr (text_of ''UserEntity''), PInt (10 ^ int_max_str_digits)],
      kind = text_of ''UserEntity'', key_str = []\<rparr> = Inl BuiltinValueError"
proof (intro conjI)
  show "get_resource_id_from_key
     \<lparr>flat_path = [PStr (text_of ''UserEntity''), PInt 0], kind = text_of ''UserEntity'',
      key_str = []\<rparr> = Inl TypeError"
    by (simp add: get_resource_id_from_key_def percent_pair_str)
  show "get_resource_id_from_key
     \<lparr>flat_path = [PStr [233], PStr (text_of ''x'')], kind = [233], key_str = []\<rparr>
     = Inl UnicodeEncodeError"
    by (simp add: get_resource_id_from_key_def codec_defs)
  have u: "text_of ''UserEntity'' \<noteq> []" by (simp add: text_of_def)
  from str_int_beyond [OF beyond_limit] u
  show "get_resource_id_from_key
     \<lparr>flat_path = [PStr (text_of ''UserEntity''), PInt (10 ^ int_max_str_digits)],
      kind = text_of ''UserEntity'', key_str = []\<rparr> = Inl BuiltinValueError"
    by (simp add: get_resource_id_from_key_def)
qed

section \<open>The base64 step of Decode\<close>




section \<open>Padding\<close>



section \<open>Rejections by Encode\<close>

text \<open>
  C3, as amended. Encode fails with InvalidKeyException, its message naming the key,
  for every key whose flat path has an odd number of components. For an empty flat
  path, which a key of the datastore library cannot have, Encode returns the empty
  resource id.
\<close>

theorem odd_path_rejected:
  "(odd (length (flat_path k)) \<longrightarrow>
      get_resource_id_from_key k
      = Inl (InvalidKeyException
          (text_of ''Key must have an even number of positional pairs. Received: '' @ key_str k)))
   \<and> (flat_path k = [] \<longrightarrow> get_resource_id_from_key k = Inr [])"
  by (simp add: get_resource_id_from_key_def percent_key and_one_eq odd_iff_mod_2_eq_one
      encode_ascii_def urlsafe_b64encode_def)

theorem odd_path_rejected_witness:
  "odd (length [PStr (text_of ''UserEntity'')])
   \<and> get_resource_id_from_key
       \<lparr>flat_path = [PStr (text_of ''UserEntity'')], kind = text_of ''UserEntity'',
        key_str = text_of ''<Key>''\<rparr>
     = Inl (InvalidKeyException
         (text_of ''Key must have an even number of positional pairs. Received: <Key>''))
   \<and> odd (length [PStr (text_of ''UserEntity''), PInt 1, PStr (text_of ''Child'')])
   \<and> get_resource_id_from_key
       \<lparr>flat_path = [PStr (text_of ''UserEntity''), PInt 1, PStr (text_of ''Child'')],
        kind = text_of ''Child'', key_str = text_of ''<Key>''\<rparr>
     = Inl (InvalidKeyException
         (text_of ''Key must have an even number of positional pairs. Received: <Key>''))
   \<and> get_resource_id_from_key \<lparr>flat_path = [], kind = [], key_str = []\<rparr> = Inr []"
  using odd_path_rejected [of "\<lparr>flat_path = [PStr (text_of ''UserEntity'')],
        kind = text_of ''UserEntity'', key_str = text_of ''<Key>''\<rparr>"]
    odd_path_rejected [of "\<lparr>flat_path = [PStr (text_of ''UserEntity''), PInt 1,
        PStr (text_of ''Child'')], kind = text_of ''Child'', key_str = text_of ''<Key>''\<rparr>"]
    odd_path_rejected [of "\<lparr>flat_path = [], kind = [], key_str = []\<rparr>"]
  by (simp add: text_of_def)

theorem odd_path_rejected_counterexample:
  "get_resource_id_from_key \<lparr>flat_path = [], kind = [], key_str = text_of ''<Key>''\<rparr> = Inr []"
  by (simp add: get_resource_id_from_key_def encode_ascii_def urlsafe_b64encode_def)

text \<open>
  C8, the code at its failing inputs. A pair with an empty kind, or with an empty
  string as identifier, reaches line 52, where formatting the pair, a tuple of two,
  into the template with one placeholder raises TypeError before InvalidKeyException
  is constructed.
\<close>

theorem empty_component_raises_TypeError:
  "get_resource_id_from_key \<lparr>flat_path = [PStr [], i], kind = kd, key_str = ks\<rparr> = Inl TypeError
   \<and> get_resource_id_from_key \<lparr>flat_path = [PStr k, PStr []], kind = kd, key_str = ks\<rparr>
     = Inl TypeError"
  by (simp add: get_resource_id_from_key_def percent_pair_str)

text \<open>
  C10, the code at its failing input. A pair whose identifier is the integer 0 fails
  the truth test of line 51 and reaches the same line 52: Encode raises TypeError, not
  InvalidKeyException.
\<close>

theorem zero_identifier_raises_TypeError:
  "get_resource_id_from_key \<lparr>flat_path = [PStr k, PInt 0], kind = kd, key_str = ks\<rparr>
   = Inl TypeError"
  by (simp add: get_resource_id_from_key_def percent_pair_str split: sum.splits)

section \<open>Tokens\<close>

text \<open>
  C5, as amended. For every resource id whose payload decodes to text, Decode treats
  every token of the split sequence in the same way, whatever its position: an empty
  token raises IndexError; a token that starts with the marker becomes the integer its
  remainder denotes (so the decimal string of every integer of at most 4300 digits
  comes back as that integer) or raises ValueError when the remainder is no integer
  literal, as for the bare marker, or has more than 4300 digits; and any other token
  is kept as a string. Decode raises the error of the first token that has one, and
  nothing but IndexError and ValueError there; otherwise it hands the values of all
  tokens, in order, to the key constructor of the client.
\<close>

theorem token_check_uniform:
  assumes "base64_step (restore_padding rid) = Inr decoded"
  shows "key_tokens db rid = collect (map (token_value db) (split SEPARATOR decoded))
    \<and> token_value db [] = Inl IndexError
    \<and> token_value db [INTPREFIX] = Inl BuiltinValueError
    \<and> (within_limit i \<longrightarrow> token_value db (INTPREFIX # dec_int i) = Inr (PInt i))
    \<and> (list_all is_digit dgs \<and> int_max_str_digits < length dgs \<longrightarrow>
         token_value db (INTPREFIX # dgs) = Inl BuiltinValueError)
    \<and> (c \<noteq> INTPREFIX \<longrightarrow> token_value db (c # t) = Inr (PStr (c # t)))
    \<and> ([] \<in> set (split SEPARATOR decoded) \<or> [INTPREFIX] \<in> set (split SEPARATOR decoded)
         \<longrightarrow> (\<exists>e. key_tokens db rid = Inl e))
    \<and> (\<forall>e. key_tokens db rid = Inl e \<longrightarrow>
         (e = IndexError \<or> e = BuiltinValueError)
         \<and> get_key_from_resource_id ds db p rid = (Inl e, p))
    \<and> (\<forall>vs. key_tokens db rid = Inr vs \<longrightarrow>
         get_key_from_resource_id ds db p rid
         = (case Client ds p of
              (Inl e, p') \<Rightarrow> (Inl e, p')
            | (Inr h, p') \<Rightarrow> (client_key ds h vs, p')))"
proof (intro conjI impI allI)
  let ?toks = "split SEPARATOR decoded"
  note kt = key_tokens_collect [OF assms, of db]
  show "key_tokens db rid = collect (map (token_value db) ?toks)" by (rule kt)
  show e: "token_value db [] = Inl IndexError" by (simp add: token_value_def)
  show m: "token_value db [INTPREFIX] = Inl BuiltinValueError"
    by (simp add: token_value_def py_int_empty)
  show "token_value db (INTPREFIX # dec_int i) = Inr (PInt i)" if "within_limit i"
    by (simp add: token_value_def py_int_dec_int [OF that])
  show "token_value db (INTPREFIX # dgs) = Inl BuiltinValueError"
    if "list_all is_digit dgs \<and> int_max_str_digits < length dgs"
    using that py_int_too_many_digits [of dgs db] by (simp add: token_value_def)
  show "token_value db (c # t) = Inr (PStr (c # t))" if "c \<noteq> INTPREFIX"
    using that by (simp add: token_value_def)
  show "\<exists>e. key_tokens db rid = Inl e" if "[] \<in> set ?toks \<or> [INTPREFIX] \<in> set ?toks"
  proof -
    from that e m have "Inl IndexError \<in> set (map (token_value db) ?toks)
        \<or> Inl BuiltinValueError \<in> set (map (token_value db) ?toks)"
      by (metis image_eqI set_map)
    then show ?thesis unfolding kt using collect_fails by blast
  qed
  show "e = IndexError \<or> e = BuiltinValueError" if "key_tokens db rid = Inl e" for e
  proof -
    from that kt have "collect (map (token_value db) ?toks) = Inl e" by simp
    then have "Inl e \<in> set (map (token_value db) ?toks)" by (rule collect_error)
    then obtain tok where "token_value db tok = Inl e" by auto
    then show ?thesis by (rule token_value_error)
  qed
  show "get_key_from_resource_id ds db p rid = (Inl e, p)" if "key_tokens db rid = Inl e" for e
    by (rule get_key_decode_error [OF that])
  show "get_key_from_resource_id ds db p rid
         = (case Client ds p of
              (Inl e, p') \<Rightarrow> (Inl e, p')
            | (Inr h, p') \<Rightarrow> (client_key ds h vs, p'))"
    if "key_tokens db rid = Inr vs" for vs
    using that by (simp add: get_key_from_resource_id_def)
qed

theorem token_check_uniform_witness:
  "base64_step (restore_padding (text_of ''HzEeQR4fLTc'')) = Inr [31, 49, 30, 65, 30, 31, 45, 55]
   \<and> key_tokens ascii_db (text_of ''HzEeQR4fLTc'') = Inr [PInt 1, PStr [65], PInt (- 7)]
   \<and> get_key_from_resource_id stub_ds ascii_db initial (text_of ''HzEeQR4fLTc'')
     = (Inl (ValueError (text_of ''Kind was not a string.'')),
        \<lparr>ds_client = Some 0, calls = 1, made = [0]\<rparr>)
   \<and> within_limit (- 7)
   \<and> token_value ascii_db (INTPREFIX # dec_int (- 7)) = Inr (PInt (- 7))
   \<and> list_all is_digit (replicate 4301 48)
   \<and> int_max_str_digits < length (replicate 4301 (48 :: nat))
   \<and> token_value ascii_db (INTPREFIX # replicate 4301 48) = Inl BuiltinValueError
   \<and> 65 \<noteq> INTPREFIX
   \<and> token_value ascii_db [65] = Inr (PStr [65])
   \<and> base64_step (restore_padding (text_of ''QR4eQg'')) = Inr [65, 30, 30, 66]
   \<and> [] \<in> set (split SEPARATOR [65, 30, 30, 66])
   \<and> key_tokens ascii_db (text_of ''QR4eQg'') = Inl IndexError
   \<and> get_key_from_resource_id stub_ds ascii_db initial (text_of ''QR4eQg'')
     = (Inl IndexError, initial)"
proof -
  let ?a = "text_of ''HzEeQR4fLTc''"
  let ?b = "text_of ''QR4eQg''"
  have 1: "base64_step (restore_padding ?a) = Inr [31, 49, 30, 65, 30, 31, 45, 55]"
    by (simp add: codec_defs)
  have 2: "base64_step (restore_padding ?b) = Inr [65, 30, 30, 66]"
    by (simp add: codec_defs)
  note a = token_check_uniform [OF 1, of ascii_db "- 7" "replicate 4301 48" 65 "[]"
      stub_ds initial]
  note b = token_check_uniform [OF 2, of ascii_db _ _ _ _ stub_ds initial]
  have 6: "65 \<noteq> INTPREFIX" by (simp add: INTPREFIX_def)
  have 8: "within_limit (- 7)"
    by (simp add: within_limit_def int_max_str_digits_def dec_digits.simps)
  have 10: "list_all is_digit (replicate 4301 48)" by (rule digits_replicate)
  have 11: "int_max_str_digits < length (replicate 4301 (48 :: nat))"
    by (simp add: int_max_str_digits_def)
  have 9: "token_value ascii_db (INTPREFIX # dec_int (- 7)) = Inr (PInt (- 7))"
    using a [THEN conjunct2, THEN conjunct2, THEN conjunct2, THEN conjunct1] 8 by simp
  have 12: "token_value ascii_db (INTPREFIX # replicate 4301 48) = Inl BuiltinValueError"
    using a [THEN conjunct2, THEN conjunct2, THEN conjunct2, THEN conjunct2, THEN conjunct1]
      10 11
    by simp
  have 7: "token_value ascii_db [65] = Inr (PStr [65])"
    using a [THEN conjunct2, THEN conjunct2, THEN conjunct2, THEN conjunct2, THEN conjunct2,
        THEN conjunct1] 6
    by simp
  have 3: "[] \<in> set (split SEPARATOR [65, 30, 30, 66])"
    by (simp add: SEPARATOR_def)
  have 4: "key_tokens ascii_db ?a = Inr [PInt 1, PStr [65], PInt (- 7)]"
    using a [THEN conjunct1]
    by (simp add: SEPARATOR_def INTPREFIX_def token_value_def py_int_def long_from_string_def
        py_isspace_def is_digit_def int_max_str_digits_def)
  have 5: "key_tokens ascii_db ?b = Inl IndexError"
    using b [THEN conjunct1]
    by (simp add: SEPARATOR_def INTPREFIX_def token_value_def)
  note last2 = conjunct2 [OF conjunct2 [OF conjunct2 [OF conjunct2 [OF conjunct2
      [OF conjunct2 [OF conjunct2]]]]]]
  have c: "Client stub_ds initial = (Inr 0, \<lparr>ds_client = Some 0, calls = 1, made = [0]\<rparr>)"
    by (simp add: Client_def stub_ds_def initial_def)
  have sk: "client_key stub_ds 0 [PInt 1, PStr [65], PInt (- 7)]
      = Inl (ValueError (text_of ''Kind was not a string.''))"
    by (simp add: stub_ds_def stub_key_def)
  have 13: "get_key_from_resource_id stub_ds ascii_db initial ?a
     = (Inl (ValueError (text_of ''Kind was not a string.'')),
        \<lparr>ds_client = Some 0, calls = 1, made = [0]\<rparr>)"
    using last2 [OF a, THEN conjunct2, rule_format, OF 4] by (simp add: c sk)
  have 14: "get_key_from_resource_id stub_ds ascii_db initial ?b = (Inl IndexError, initial)"
    using last2 [OF b, THEN conjunct1, rule_format, OF 5] by simp
  show ?thesis
    by (intro conjI) (rule 1 2 3 4 5 6 7 8 9 10 11 12 13 14)+
qed

theorem token_check_uniform_counterexample:
  "get_key_from_resource_id stub_ds ascii_db initial (text_of ''Hg'') = (Inl IndexError, initial)
   \<and> get_key_from_resource_id stub_ds ascii_db initial (text_of ''QR4f'')
     = (Inl BuiltinValueError, initial)"
  by (simp add: get_key_from_resource_id_def codec_defs)

section \<open>Error unification\<close>

text \<open>
  C2, as amended. For every expected kind and every non-empty resource id the outcome
  of get_entity_by_resource_id is fixed in every case. A failure of decoding gives
  InvalidIdException with the message that quotes the resource id. So does a failure
  of the client constructor or of key construction whose class is ValueError,
  AttributeError, IndexError or TypeError, and so does a kind that differs from the
  expected one: the ValueError of the kind check never escapes. When the kinds agree,
  the second construction of the wrapper returns the cached client, and the outcome
  is that of its look-up: its result, which may be None, or InvalidIdException when
  the look-up fails with an exception of the four classes. An exception of the
  datastore library of any other class, from the constructor, the key construction
  or the look-up, passes through unchanged.
\<close>

theorem resolve_unifies:
  assumes "rid \<noteq> []"
  shows "(\<forall>e. key_tokens db rid = Inl e \<longrightarrow>
            get_entity_by_resource_id ds db p ek (PStr rid)
            = (Inl (InvalidIdException (invalid_id_msg rid)), p))
    \<and> (\<forall>e p'. get_key_from_resource_id ds db p rid = (Inl e, p') \<longrightarrow>
            get_entity_by_resource_id ds db p ek (PStr rid)
            = (if caught e then Inl (InvalidIdException (invalid_id_msg rid)) else Inl e, p'))
    \<and> (\<forall>k p'. get_key_from_resource_id ds db p rid = (Inr k, p') \<and> PStr (kind k) \<noteq> ek \<longrightarrow>
            get_entity_by_resource_id ds db p ek (PStr rid)
            = (Inl (InvalidIdException (invalid_id_msg rid)), p'))
    \<and> (\<forall>k p'. get_key_from_resource_id ds db p rid = (Inr k, p') \<and> PStr (kind k) = ek \<longrightarrow>
            (\<exists>c. ds_client p' = Some c \<and> Client ds p' = (Inr c, p')
              \<and> get_entity_by_resource_id ds db p ek (PStr rid)
                = (case client_get ds c k of
                     Inr v \<Rightarrow> (Inr v, p')
                   | Inl e \<Rightarrow>
                       (if caught e then Inl (InvalidIdException (invalid_id_msg rid))
                        else Inl e, p'))))
    \<and> (\<forall>e. fst (get_entity_by_resource_id ds db p ek (PStr rid)) = Inl e \<longrightarrow>
            e = InvalidIdException (invalid_id_msg rid) \<or> \<not> caught e)"
proof (intro conjI allI impI)
  note ge = get_entity_str [OF assms, of ds db p ek]
  show "get_entity_by_resource_id ds db p ek (PStr rid)
      = (Inl (InvalidIdException (invalid_id_msg rid)), p)" if "key_tokens db rid = Inl e" for e
    using resolve_body_key_error [OF get_key_decode_error [OF that, of ds p], of ek]
      key_tokens_error [OF that]
    by (simp add: ge)
  show "get_entity_by_resource_id ds db p ek (PStr rid)
      = (if caught e then Inl (InvalidIdException (invalid_id_msg rid)) else Inl e, p')"
    if "get_key_from_resource_id ds db p rid = (Inl e, p')" for e p'
    using resolve_body_key_error [OF that, of ek] by (simp add: ge)
  show "get_entity_by_resource_id ds db p ek (PStr rid)
      = (Inl (InvalidIdException (invalid_id_msg rid)), p')"
    if "get_key_from_resource_id ds db p rid = (Inr k, p') \<and> PStr (kind k) \<noteq> ek" for k p'
  proof -
    from that resolve_body_mismatch [of ds db p rid k p' ek]
    obtain e where "caught e" "resolve_body ds db p ek rid = (Inl e, p')" by blast
    then show ?thesis by (simp add: ge)
  qed
  show "\<exists>c. ds_client p' = Some c \<and> Client ds p' = (Inr c, p')
              \<and> get_entity_by_resource_id ds db p ek (PStr rid)
                = (case client_get ds c k of
                     Inr v \<Rightarrow> (Inr v, p')
                   | Inl e \<Rightarrow>
                       (if caught e then Inl (InvalidIdException (invalid_id_msg rid))
                        else Inl e, p'))"
    if "get_key_from_resource_id ds db p rid = (Inr k, p') \<and> PStr (kind k) = ek" for k p'
  proof -
    from that have g: "get_key_from_resource_id ds db p rid = (Inr k, p')"
      and m: "PStr (kind k) = ek" by simp_all
    from get_key_success [OF g] obtain c where c: "ds_client p' = Some c" ..
    have "get_entity_by_resource_id ds db p ek (PStr rid)
        = (case client_get ds c k of
             Inr v \<Rightarrow> (Inr v, p')
           | Inl e \<Rightarrow>
               (if caught e then Inl (InvalidIdException (invalid_id_msg rid)) else Inl e, p'))"
      by (simp add: ge resolve_body_match [OF g m c] split: sum.splits)
    with c Client_cached [OF c, of ds] show ?thesis by blast
  qed
  show "e = InvalidIdException (invalid_id_msg rid) \<or> \<not> caught e"
    if "fst (get_entity_by_resource_id ds db p ek (PStr rid)) = Inl e" for e
    using that unfolding ge by (auto split: prod.splits sum.splits if_splits)
qed

theorem resolve_unifies_witness:
  "text_of ''VXNlckVudGl0eR5k3'' \<noteq> []
   \<and> key_tokens ascii_db (text_of ''VXNlckVudGl0eR5k3'') = Inl (InvalidIdException decode_msg)
   \<and> get_entity_by_resource_id stub_ds ascii_db initial (PStr (text_of ''UserEntity''))
        (PStr (text_of ''VXNlckVudGl0eR5k3''))
     = (Inl (InvalidIdException (invalid_id_msg (text_of ''VXNlckVudGl0eR5k3''))), initial)
   \<and> text_of ''HzEeQQ'' \<noteq> []
   \<and> get_key_from_resource_id stub_ds ascii_db initial (text_of ''HzEeQQ'')
     = (Inl (ValueError (text_of ''Kind was not a string.'')),
        \<lparr>ds_client = Some 0, calls = 1, made = [0]\<rparr>)
   \<and> get_entity_by_resource_id stub_ds ascii_db initial (PStr (text_of ''UserEntity''))
        (PStr (text_of ''HzEeQQ''))
     = (Inl (InvalidIdException (invalid_id_msg (text_of ''HzEeQQ''))),
        \<lparr>ds_client = Some 0, calls = 1, made = [0]\<rparr>)
   \<and> text_of ''VXNlckVudGl0eR4fMQ'' \<noteq> []
   \<and> get_key_from_resource_id stub_ds ascii_db initial (text_of ''VXNlckVudGl0eR4fMQ'')
     = (Inr \<lparr>flat_path = [PStr (text_of ''UserEntity''), PInt 1], kind = text_of ''UserEntity'',
             key_str = []\<rparr>,
        \<lparr>ds_client = Some 0, calls = 1, made = [0]\<rparr>)
   \<and> PStr (text_of ''UserEntity'') \<noteq> PStr (text_of ''OtherEntity'')
   \<and> get_entity_by_resource_id stub_ds ascii_db initial (PStr (text_of ''OtherEntity''))
        (PStr (text_of ''VXNlckVudGl0eR4fMQ''))
     = (Inl (InvalidIdException (invalid_id_msg (text_of ''VXNlckVudGl0eR4fMQ''))),
        \<lparr>ds_client = Some 0, calls = 1, made = [0]\<rparr>)
   \<and> get_entity_by_resource_id stub_ds ascii_db initial (PStr (text_of ''UserEntity''))
        (PStr (text_of ''VXNlckVudGl0eR4fMQ''))
     = (Inr None, \<lparr>ds_client = Some 0, calls = 1, made = [0]\<rparr>)
   \<and> get_entity_by_resource_id unavailable_ds ascii_db initial (PStr (text_of ''UserEntity''))
        (PStr (text_of ''VXNlckVudGl0eR4fMQ''))
     = (Inl (OtherError (text_of ''ServiceUnavailable'')),
        \<lparr>ds_client = Some 0, calls = 1, made = [0]\<rparr>)"
proof -
  let ?bad = "text_of ''VXNlckVudGl0eR5k3''"
  let ?rid = "text_of ''VXNlckVudGl0eR4fMQ''"
  let ?odd = "text_of ''HzEeQQ''"
  let ?k = "\<lparr>flat_path = [PStr (text_of ''UserEntity''), PInt 1], kind = text_of ''UserEntity'',
             key_str = []\<rparr>"
  let ?p = "\<lparr>ds_client = Some (0::nat), calls = 1, made = [0]\<rparr>"
  let ?U = "PStr (text_of ''UserEntity'')"
  have n1: "?bad \<noteq> []" and n2: "?rid \<noteq> []" and n3: "?odd \<noteq> []"
    by (simp_all add: text_of_def)
  have t: "key_tokens ascii_db ?bad = Inl (InvalidIdException decode_msg)"
    by (rule tokens_bad_padding)
  have g: "get_key_from_resource_id stub_ds ascii_db initial ?rid = (Inr ?k, ?p)"
    by (simp add: get_key_from_resource_id_def tokens_user_1 Client_def stub_ds_def stub_key_def
        initial_def)
  have gu: "get_key_from_resource_id unavailable_ds ascii_db initial ?rid = (Inr ?k, ?p)"
    by (simp add: get_key_from_resource_id_def tokens_user_1 Client_def unavailable_ds_def
        stub_ds_def stub_key_def initial_def)
  have go: "get_key_from_resource_id stub_ds ascii_db initial ?odd
      = (Inl (ValueError (text_of ''Kind was not a string.'')), ?p)"
    by (simp add: get_key_from_resource_id_def codec_defs Client_def stub_ds_def stub_key_def
        initial_def)
  have ne: "?U \<noteq> PStr (text_of ''OtherEntity'')"
    by (simp add: text_of_def)
  have ku: "PStr (kind ?k) = ?U" by simp
  have l: "client_get stub_ds 0 ?k = Inr None" by (simp add: stub_ds_def)
  have lu: "client_get unavailable_ds 0 ?k = Inl (OtherError (text_of ''ServiceUnavailable''))"
    by (simp add: unavailable_ds_def stub_ds_def)
  have 1: "get_entity_by_resource_id stub_ds ascii_db initial ?U (PStr ?bad)
      = (Inl (InvalidIdException (invalid_id_msg ?bad)), initial)"
    using resolve_unifies [OF n1, of ascii_db stub_ds initial ?U, THEN conjunct1] t
    by simp
  have 2: "get_entity_by_resource_id stub_ds ascii_db initial (PStr (text_of ''OtherEntity''))
        (PStr ?rid) = (Inl (InvalidIdException (invalid_id_msg ?rid)), ?p)"
    using resolve_unifies [OF n2, of ascii_db stub_ds initial "PStr (text_of ''OtherEntity'')",
        THEN conjunct2, THEN conjunct2, THEN conjunct1] g ne
    by simp
  have 4: "get_entity_by_resource_id stub_ds ascii_db initial ?U (PStr ?odd)
      = (Inl (InvalidIdException (invalid_id_msg ?odd)), ?p)"
    using resolve_unifies [OF n3, of ascii_db stub_ds initial ?U,
        THEN conjunct2, THEN conjunct1] go
    by simp
  from resolve_unifies [OF n2, of ascii_db stub_ds initial ?U,
        THEN conjunct2, THEN conjunct2, THEN conjunct2, THEN conjunct1, rule_format,
        OF conjI [OF g ku]]
  have 3: "get_entity_by_resource_id stub_ds ascii_db initial ?U (PStr ?rid) = (Inr None, ?p)"
    by (auto simp add: l)
  from resolve_unifies [OF n2, of ascii_db unavailable_ds initial ?U,
        THEN conjunct2, THEN conjunct2, THEN conjunct2, THEN conjunct1, rule_format,
        OF conjI [OF gu ku]]
  have 5: "get_entity_by_resource_id unavailable_ds ascii_db initial ?U (PStr ?rid)
      = (Inl (OtherError (text_of ''ServiceUnavailable'')), ?p)"
    by (auto simp add: lu)
  show ?thesis
    by (intro conjI) (rule n1 n2 n3 t g go ne 1 2 3 4 5)+
qed

theorem resolve_unifies_counterexample:
  "get_entity_by_resource_id offline_ds ascii_db initial (PStr (text_of ''UserEntity''))
     (PStr (text_of ''VXNlckVudGl0eR4fMQ''))
   = (Inl (OtherError (text_of ''DefaultCredentialsError'')),
      \<lparr>ds_client = None, calls = 1, made = []\<rparr>)"
proof -
  have n: "text_of ''VXNlckVudGl0eR4fMQ'' \<noteq> []" by (simp add: text_of_def)
  show ?thesis
    by (simp add: get_entity_str [OF n] resolve_body_def get_key_from_resource_id_def
        tokens_user_1 Client_def offline_ds_def stub_ds_def initial_def)
qed

section \<open>The singleton\<close>

text \<open>
  C9. Once a client is cached, constructing the wrapper returns that same client and
  changes nothing: the library's constructor is not called, and neither is it by any
  later sequence of constructions, decodings and look-ups. Whatever sequence of calls
  runs in a fresh process, at most one client is ever made, and it is the cached one.
\<close>

theorem singleton_client:
  "(ds_client p = Some c \<longrightarrow> Client ds p = (Inr c, p) \<and> run ds db cs p = p)
   \<and> one_client (run ds db cs initial)
   \<and> length (made (run ds db cs initial)) \<le> 1"
proof -
  have "one_client (initial :: 'a process)" by (simp add: one_client_def initial_def)
  then have "one_client (run ds db cs initial)" by (rule run_one_client)
  with one_client_length [OF this] show ?thesis
    by (simp add: Client_cached run_cached)
qed

theorem singleton_client_witness:
  "ds_client (run stub_ds ascii_db [Construct] initial) = Some 0
   \<and> Client stub_ds (run stub_ds ascii_db [Construct] initial)
     = (Inr 0, run stub_ds ascii_db [Construct] initial)
   \<and> run stub_ds ascii_db
       [Construct, GetKey (text_of ''VXNlckVudGl0eR4fMQ''),
        GetEntity (PStr (text_of ''UserEntity'')) (PStr (text_of ''VXNlckVudGl0eR4fMQ''))]
       (run stub_ds ascii_db [Construct] initial)
     = run stub_ds ascii_db [Construct] initial
   \<and> made (run stub_ds ascii_db [Construct] initial) = [0]"
proof -
  let ?p = "run stub_ds ascii_db [Construct] initial"
  have p: "?p = \<lparr>ds_client = Some 0, calls = 1, made = [0]\<rparr>"
    by (simp add: Client_def stub_ds_def initial_def)
  then have 1: "ds_client ?p = Some 0" and 4: "made ?p = [0]" by simp_all
  note s = singleton_client [of ?p 0 stub_ds ascii_db
      "[Construct, GetKey (text_of ''VXNlckVudGl0eR4fMQ''),
        GetEntity (PStr (text_of ''UserEntity'')) (PStr (text_of ''VXNlckVudGl0eR4fMQ''))]",
      THEN conjunct1, rule_format, OF 1]
  show ?thesis
    by (intro conjI) (rule 1 4 s [THEN conjunct1] s [THEN conjunct2])+
qed

end
